theory Spec2Isabelle
  imports Complex_Main
begin

section \<open>Abuse gate (\<open>manage_roles_only\<close>)\<close>

text \<open>
  \<open>_unauth_attempts = defaultdict(lambda: [0, 0.0])\<close>: a dictionary from user id to the
  pair (attempt count, time of the last attempt); reading a missing key gives \<open>[0, 0.0]\<close>.
  \<open>time.time()\<close> is passed in as \<open>now\<close>; times are modelled as reals.
\<close>

type_synonym attempts = "int \<rightharpoonup> (int \<times> real)"

definition attempts_get :: "attempts \<Rightarrow> int \<Rightarrow> int \<times> real" where
  "attempts_get st uid = (case st uid of None \<Rightarrow> (0, 0) | Some v \<Rightarrow> v)"

definition MAX_ATTEMPTS :: int where
  "MAX_ATTEMPTS = 3"

definition WINDOW_SECONDS :: real where
  "WINDOW_SECONDS = 60"

record guild_permissions =
  manage_roles :: bool
  administrator :: bool

datatype reply = DefaultMessage | EscalatedMessage

text \<open>
  The check predicate. The result is the new counter dictionary, the value the predicate
  returns (\<open>True\<close> allows the command) and the message sent with \<open>ctx.reply\<close>, if any.
\<close>

definition predicate ::
  "guild_permissions \<Rightarrow> int \<Rightarrow> real \<Rightarrow> attempts \<Rightarrow> attempts \<times> bool \<times> reply option" where
  "predicate perms author_id now st =
     (let has_perm = (manage_roles perms \<or> administrator perms) in
      if has_perm then (st(author_id \<mapsto> (0, 0)), True, None)
      else
        let (count0, last_ts) = attempts_get st author_id;
            count1 = (if now - last_ts > WINDOW_SECONDS then 0 else count0);
            count2 = count1 + 1;
            st' = st(author_id \<mapsto> (count2, now))
        in (st', False,
            Some (if count2 \<ge> MAX_ATTEMPTS then EscalatedMessage else DefaultMessage)))"

text \<open>
  A command decorated with the check: the body runs on the application state only when
  the predicate returns \<open>True\<close>.
\<close>

definition checked_command ::
  "guild_permissions \<Rightarrow> int \<Rightarrow> real \<Rightarrow> ('s \<Rightarrow> 's) \<Rightarrow> attempts \<times> 's \<Rightarrow> (attempts \<times> 's) \<times> reply option" where
  "checked_command perms author_id now body cfg =
     (case predicate perms author_id now (fst cfg) of
        (st', allowed, msg) \<Rightarrow> ((st', if allowed then body (snd cfg) else snd cfg), msg))"

text \<open>
  The per-user state machine driven by a sequence of calls of one user at the given
  clock readings; the messages are collected in call order.
\<close>

fun attempts_run ::
  "guild_permissions \<Rightarrow> int \<Rightarrow> real list \<Rightarrow> attempts \<Rightarrow> attempts \<times> reply option list" where
  "attempts_run perms author_id [] st = (st, [])"
| "attempts_run perms author_id (now # ts) st =
     (case predicate perms author_id now st of
        (st', allowed, msg) \<Rightarrow>
          (case attempts_run perms author_id ts st' of (st'', msgs) \<Rightarrow> (st'', msg # msgs)))"

section \<open>Ledger store: scores\<close>

text \<open>
  Exceptions of the source as values. \<open>OperationalError\<close> and \<open>IntegrityError\<close> are
  raised by \<open>sqlite3\<close> for a statement that names a missing table or column and for a
  violated \<open>NOT NULL\<close> constraint; \<open>OverflowError\<close> is raised by \<open>sqlite3\<close> when a
  bound Python integer does not fit the signed 64-bit \<open>INTEGER\<close> of the store;
  \<open>HTTPException\<close> stands for any failure of a Discord call other than a refusal.
\<close>

datatype error = OperationalError | IntegrityError | OverflowError | HTTPException

text \<open>
  One row of a warnings table in any of its historical shapes: \<open>rid\<close> is the rowid (the
  \<open>id INTEGER PRIMARY KEY\<close> column), the other fields are the columns the source ever
  names. Which of them the table really has is recorded in \<open>columns\<close>; a field whose column
  is missing is never read. \<open>sqlite_sequence\<close> is the \<open>AUTOINCREMENT\<close> high-water mark.
\<close>

record wrow =
  rid :: int
  user_id :: int
  reason :: "string option"
  date :: "string option"
  warnings :: "int option"

record table =
  columns :: "string list"
  rows :: "wrow list"
  sqlite_sequence :: int

text \<open>
  The database file: \<open>user_fp\<close> (created by every \<open>db()\<close> call, so always present),
  \<open>user_warnings\<close> and the migration's scratch table \<open>_uw_new\<close>. User ids are Discord
  snowflakes, which fit the store's integer range.
\<close>

record database =
  user_fp :: "int \<rightharpoonup> int"
  user_warnings :: "table option"
  uw_new :: "table option"

definition in_int64 :: "int \<Rightarrow> bool" where
  "in_int64 v \<longleftrightarrow> - (2 ^ 63) \<le> v \<and> v < 2 ^ 63"

definition get_fp :: "database \<Rightarrow> int \<Rightarrow> int" where
  "get_fp db uid = (case user_fp db uid of None \<Rightarrow> 0 | Some v \<Rightarrow> v)"

definition set_fp :: "database \<Rightarrow> int \<Rightarrow> int \<Rightarrow> error + database" where
  "set_fp db uid val =
     (if in_int64 val then Inr (db\<lparr>user_fp := (user_fp db)(uid \<mapsto> val)\<rparr>)
      else Inl OverflowError)"

text \<open>
  The ledger part of the \<open>fp\<close> command and of the \<open>fpall\<close> loop body:
  \<open>current = get_fp(id); new = current + delta; set_fp(id, new)\<close>.
\<close>

definition apply_delta :: "database \<Rightarrow> int \<Rightarrow> int \<Rightarrow> error + (database \<times> int)" where
  "apply_delta db uid delta =
     (let current = get_fp db uid; new = current + delta
      in case set_fp db uid new of Inl e \<Rightarrow> Inl e | Inr db' \<Rightarrow> Inr (db', new))"

section \<open>Ledger store: warnings\<close>

definition minimal_columns :: "string list" where
  "minimal_columns = [''id'', ''user_id'']"

definition current_columns :: "string list" where
  "current_columns = [''id'', ''user_id'', ''reason'', ''date'']"

text \<open>\<open>CREATE TABLE IF NOT EXISTS\<close>: an existing table is kept as it is, whatever its columns.\<close>

definition create_table_if_not_exists :: "string list \<Rightarrow> table option \<Rightarrow> table" where
  "create_table_if_not_exists cs topt =
     (case topt of None \<Rightarrow> \<lparr>columns = cs, rows = [], sqlite_sequence = 0\<rparr> | Some t \<Rightarrow> t)"

definition next_rowid :: "table \<Rightarrow> int" where
  "next_rowid t = max (sqlite_sequence t) (fold max (map rid (rows t)) 0) + 1"

definition insert_row :: "table \<Rightarrow> int \<Rightarrow> string \<Rightarrow> string \<Rightarrow> table" where
  "insert_row t uid r d =
     t\<lparr>rows := rows t @ [\<lparr>rid = next_rowid t, user_id = uid, reason = Some r,
                           date = Some d, warnings = None\<rparr>],
       sqlite_sequence := next_rowid t\<rparr>"

text \<open>
  \<open>INSERT INTO t (user_id, reason, date) VALUES (?, ?, ?)\<close> needs the three columns; a
  legacy \<open>warnings\<close> column is \<open>NOT NULL\<close> (docstring of the migration) and gets no value.
\<close>

definition insert_error :: "table \<Rightarrow> error option" where
  "insert_error t =
     (if \<not> set [''user_id'', ''reason'', ''date''] \<subseteq> set (columns t) then Some OperationalError
      else if ''warnings'' \<in> set (columns t) then Some IntegrityError
      else None)"

definition ensure_warning_schema :: "database \<Rightarrow> database" where
  "ensure_warning_schema db =
     db\<lparr>user_warnings := Some (create_table_if_not_exists minimal_columns (user_warnings db))\<rparr>"

definition add_warning :: "database \<Rightarrow> int \<Rightarrow> string \<Rightarrow> string \<Rightarrow> error + database" where
  "add_warning db uid r today =
     (let t = create_table_if_not_exists current_columns (user_warnings db)
      in case insert_error t of
           Some e \<Rightarrow> Inl e
         | None \<Rightarrow> Inr (db\<lparr>user_warnings := Some (insert_row t uid r today)\<rparr>))"

definition get_all_warnings ::
  "database \<Rightarrow> int \<Rightarrow> error + (database \<times> (string option \<times> string option) list)" where
  "get_all_warnings db uid =
     (let t = create_table_if_not_exists current_columns (user_warnings db)
      in if set [''reason'', ''date'', ''user_id'', ''id''] \<subseteq> set (columns t)
         then Inr (db\<lparr>user_warnings := Some t\<rparr>,
                   map (\<lambda>r. (reason r, date r))
                     (sort_key rid (filter (\<lambda>r. user_id r = uid) (rows t))))
         else Inl OperationalError)"

definition remove_last_warning :: "database \<Rightarrow> int \<Rightarrow> error + (database \<times> bool)" where
  "remove_last_warning db uid =
     (case user_warnings db of
        None \<Rightarrow> Inl OperationalError
      | Some t \<Rightarrow>
          if \<not> set [''id'', ''user_id''] \<subseteq> set (columns t) then Inl OperationalError
          else
            (case sort_key (\<lambda>r. - rid r) (filter (\<lambda>r. user_id r = uid) (rows t)) of
               [] \<Rightarrow> Inr (db, False)
             | r # _ \<Rightarrow>
                 Inr (db\<lparr>user_warnings :=
                          Some (t\<lparr>rows := filter (\<lambda>x. rid x \<noteq> rid r) (rows t)\<rparr>)\<rparr>, True)))"

definition canned_reason :: string where
  "canned_reason = ''Warning administered''"

text \<open>\<open>if not reason: reason = "Warning administered"\<close> (\<open>None\<close> and \<open>""\<close> are falsy).\<close>

definition warn_reason :: "string option \<Rightarrow> string" where
  "warn_reason r = (case r of None \<Rightarrow> canned_reason | Some s \<Rightarrow> if s = [] then canned_reason else s)"

text \<open>
  The body of the \<open>warn\<close> command up to \<open>total_warnings\<close>; building and sending the
  message is left out.
\<close>

definition warn :: "database \<Rightarrow> int \<Rightarrow> string option \<Rightarrow> string \<Rightarrow> error + (database \<times> nat)" where
  "warn db mid r today =
     (case add_warning db mid (warn_reason r) today of
        Inl e \<Rightarrow> Inl e
      | Inr db1 \<Rightarrow>
          (case get_all_warnings db1 mid of
             Inl e \<Rightarrow> Inl e
           | Inr (db2, ws) \<Rightarrow> Inr (db2, length ws)))"

section \<open>Schema migrator\<close>

text \<open>
  The statements \<open>migrate_user_warnings_table\<close> sends on its connection, in the order
  of the source: the \<open>CREATE TABLE IF NOT EXISTS _uw_new\<close>; then either the one
  \<open>INSERT ... SELECT\<close> of the mixed shape, or the \<open>SELECT user_id, warnings\<close> and one
  \<open>INSERT\<close> per unit of each count; then \<open>DROP TABLE\<close>, \<open>ALTER TABLE ... RENAME\<close>
  and \<open>con.commit()\<close>.
\<close>

datatype stmt =
    CreateUwNew
  | SelectLegacy
  | InsertUwNew int string string
  | InsertSelect string
  | DropUserWarnings
  | RenameUwNew
  | Commit

definition migrated_reason :: string where
  "migrated_reason = ''Migrated from legacy count''"

definition coalesce :: "'a option \<Rightarrow> 'a \<Rightarrow> 'a" where
  "coalesce v d = (case v of None \<Rightarrow> d | Some x \<Rightarrow> x)"

text \<open>The effect of one statement on the database the connection sees.\<close>

fun apply_stmt :: "stmt \<Rightarrow> database \<Rightarrow> error + database" where
  "apply_stmt CreateUwNew db =
     Inr (db\<lparr>uw_new := Some (create_table_if_not_exists current_columns (uw_new db))\<rparr>)"
| "apply_stmt SelectLegacy db =
     (case user_warnings db of
        None \<Rightarrow> Inl OperationalError
      | Some t \<Rightarrow>
          if set [''user_id'', ''warnings''] \<subseteq> set (columns t) then Inr db
          else Inl OperationalError)"
| "apply_stmt (InsertUwNew uid r d) db =
     (case uw_new db of
        None \<Rightarrow> Inl OperationalError
      | Some n \<Rightarrow>
          (case insert_error n of
             Some e \<Rightarrow> Inl e
           | None \<Rightarrow> Inr (db\<lparr>uw_new := Some (insert_row n uid r d)\<rparr>)))"
| "apply_stmt (InsertSelect today) db =
     (case (user_warnings db, uw_new db) of
        (Some t, Some n) \<Rightarrow>
          if \<not> set [''user_id'', ''reason'', ''date''] \<subseteq> set (columns t)
          then Inl OperationalError
          else
            (case insert_error n of
               Some e \<Rightarrow> Inl e
             | None \<Rightarrow>
                 Inr (db\<lparr>uw_new := Some (foldl (\<lambda>n' r. insert_row n' (user_id r)
                                                     (coalesce (reason r) canned_reason)
                                                     (coalesce (date r) today))
                                             n (rows t))\<rparr>))
      | _ \<Rightarrow> Inl OperationalError)"
| "apply_stmt DropUserWarnings db =
     (case user_warnings db of
        None \<Rightarrow> Inl OperationalError
      | Some t \<Rightarrow> Inr (db\<lparr>user_warnings := None\<rparr>))"
| "apply_stmt RenameUwNew db =
     (case uw_new db of
        None \<Rightarrow> Inl OperationalError
      | Some n \<Rightarrow>
          (case user_warnings db of
             Some t \<Rightarrow> Inl OperationalError
           | None \<Rightarrow> Inr (db\<lparr>user_warnings := Some n, uw_new := None\<rparr>)))"
| "apply_stmt Commit db = Inr db"

text \<open>
  A \<open>sqlite3\<close> connection with the default \<open>isolation_level\<close>: \<open>durable\<close> is what the
  file holds (what survives a crash or an exit without commit), \<open>working\<close> what the
  connection sees. The driver opens a transaction before an \<open>INSERT\<close>, \<open>UPDATE\<close>,
  \<open>DELETE\<close> or \<open>REPLACE\<close> and before nothing else; a statement executed outside a
  transaction is committed by itself; \<open>commit()\<close> ends the transaction.
\<close>

record connection =
  durable :: database
  working :: database
  in_transaction :: bool

definition connect :: "database \<Rightarrow> connection" where
  "connect db = \<lparr>durable = db, working = db, in_transaction = False\<rparr>"

fun is_dml :: "stmt \<Rightarrow> bool" where
  "is_dml (InsertUwNew uid r d) = True"
| "is_dml (InsertSelect today) = True"
| "is_dml s = False"

definition exec :: "connection \<Rightarrow> stmt \<Rightarrow> error + connection" where
  "exec c s =
     (if s = Commit then Inr (c\<lparr>durable := working c, in_transaction := False\<rparr>)
      else
        (case apply_stmt s (working c) of
           Inl e \<Rightarrow> Inl e
         | Inr w \<Rightarrow>
             if is_dml s then Inr (c\<lparr>working := w, in_transaction := True\<rparr>)
             else if in_transaction c then Inr (c\<lparr>working := w\<rparr>)
             else Inr (c\<lparr>durable := w, working := w\<rparr>)))"

text \<open>
  Running statements until one raises. \<open>trace\<close> lists every connection state the run
  passes through, the first one included: the points at which the process can stop.
\<close>

fun run_stmts :: "connection \<Rightarrow> stmt list \<Rightarrow> error + connection" where
  "run_stmts c [] = Inr c"
| "run_stmts c (s # ss) = (case exec c s of Inl e \<Rightarrow> Inl e | Inr c' \<Rightarrow> run_stmts c' ss)"

fun trace :: "connection \<Rightarrow> stmt list \<Rightarrow> connection list" where
  "trace c [] = [c]"
| "trace c (s # ss) = c # (case exec c s of Inl e \<Rightarrow> [] | Inr c' \<Rightarrow> trace c' ss)"

text \<open>\<open>count = int(count or 0)\<close> and \<open>for _ in range(count)\<close>: the number of inserts of a row.\<close>

definition legacy_count :: "wrow \<Rightarrow> nat" where
  "legacy_count r = nat (coalesce (warnings r) 0)"

definition migration_stmts :: "table \<Rightarrow> string \<Rightarrow> stmt list" where
  "migration_stmts t today =
     [CreateUwNew] @
     (if set [''reason'', ''date''] \<subseteq> set (columns t) then [InsertSelect today]
      else SelectLegacy #
           concat (map (\<lambda>r. replicate (legacy_count r)
                               (InsertUwNew (user_id r) migrated_reason today)) (rows t))) @
     [DropUserWarnings, RenameUwNew, Commit]"

text \<open>
  \<open>PRAGMA table_info\<close> of a missing table has no rows, so the column set is empty and the
  function returns at once. The result is the database the file holds after the call.
\<close>

definition migrate_user_warnings_table :: "database \<Rightarrow> string \<Rightarrow> error + database" where
  "migrate_user_warnings_table db today =
     (case user_warnings db of
        None \<Rightarrow> Inr db
      | Some t \<Rightarrow>
          if ''warnings'' \<notin> set (columns t) then Inr db
          else
            (case run_stmts (connect db) (migration_stmts t today) of
               Inl e \<Rightarrow> Inl e
             | Inr c \<Rightarrow> Inr (durable c)))"

text \<open>Module start: \<open>ensure_warning_schema()\<close>, then \<open>migrate_user_warnings_table()\<close>.\<close>

definition startup :: "database \<Rightarrow> string \<Rightarrow> error + database" where
  "startup db today = migrate_user_warnings_table (ensure_warning_schema db) today"

section \<open>Role synchronizer\<close>

text \<open>
  Role names are Python strings; a character here is a code point below 256.
  \<open>fp_role_pattern = re.compile(r"^\d+\s*FP$", re.IGNORECASE)\<close>, used with \<open>match\<close>:
  one or more decimal digits, any white space, the letters F and P in either case, and
  then the end of the string, which \<open>$\<close> also finds just before a final newline.
\<close>

definition is_digit :: "char \<Rightarrow> bool" where
  "is_digit c \<longleftrightarrow> c \<in> set ''0123456789''"

definition is_space :: "char \<Rightarrow> bool" where
  "is_space c \<longleftrightarrow> (of_char c :: nat) \<in> set [9, 10, 11, 12, 13, 28, 29, 30, 31, 32, 133, 160]"

definition fp_role_pattern :: "string \<Rightarrow> bool" where
  "fp_role_pattern s =
     (let rest = dropWhile is_space (dropWhile is_digit s)
      in takeWhile is_digit s \<noteq> [] \<and>
         (case rest of
            [f, p] \<Rightarrow> f \<in> set ''Ff'' \<and> p \<in> set ''Pp''
          | [f, p, nl] \<Rightarrow> f \<in> set ''Ff'' \<and> p \<in> set ''Pp'' \<and> nl = CHR 0x0A
          | _ \<Rightarrow> False))"

record role =
  role_id :: int
  name :: string

definition is_fp_role :: "role \<Rightarrow> bool" where
  "is_fp_role r = fp_role_pattern (name r)"

text \<open>\<open>f"{new_fp} FP"\<close>: the decimal form of the integer, a minus sign first when negative.\<close>

fun digits :: "nat \<Rightarrow> string" where
  "digits n = (if n < 10 then [''0123456789'' ! n] else digits (n div 10) @ [''0123456789'' ! (n mod 10)])"

definition str_int :: "int \<Rightarrow> string" where
  "str_int i = (if i < 0 then CHR ''-'' # digits (nat (- i)) else digits (nat i))"

definition fp_role_name :: "int \<Rightarrow> string" where
  "fp_role_name new_fp = str_int new_fp @ '' FP''"

text \<open>
  A guild member; the field is \<open>is_bot\<close> for the source's \<open>member.bot\<close>. The external
  system answers each single request to remove or add a role: it is done, refused
  (\<open>discord.Forbidden\<close>), or fails otherwise (any other \<open>discord.HTTPException\<close>).
\<close>

record member =
  member_id :: int
  is_bot :: bool
  roles :: "role list"

datatype outcome = Done | Forbidden | Failed

record discord_api =
  remove_outcome :: "int \<Rightarrow> role \<Rightarrow> outcome"
  add_outcome :: "int \<Rightarrow> role \<Rightarrow> outcome"

text \<open>
  \<open>Member.remove_roles(*roles)\<close> and \<open>Member.add_roles(*roles)\<close> of the client library send
  one request per role, in order, and the first request that does not succeed raises out
  of the call, so the roles after it are not attempted. The result is the role list the
  member then holds and how the call ended.
\<close>

fun remove_roles :: "(role \<Rightarrow> outcome) \<Rightarrow> role list \<Rightarrow> role list \<Rightarrow> role list \<times> outcome" where
  "remove_roles req held [] = (held, Done)"
| "remove_roles req held (r # rs) =
     (case req r of
        Done \<Rightarrow> remove_roles req (removeAll r held) rs
      | Forbidden \<Rightarrow> (held, Forbidden)
      | Failed \<Rightarrow> (held, Failed))"

fun add_roles :: "(role \<Rightarrow> outcome) \<Rightarrow> role list \<Rightarrow> role list \<Rightarrow> role list \<times> outcome" where
  "add_roles req held [] = (held, Done)"
| "add_roles req held (r # rs) =
     (case req r of
        Done \<Rightarrow> add_roles req (if r \<in> set held then held else held @ [r]) rs
      | Forbidden \<Rightarrow> (held, Forbidden)
      | Failed \<Rightarrow> (held, Failed))"

text \<open>
  \<open>sync_member_fp_role(member, new_fp)\<close>, with \<open>member.guild.roles\<close> as \<open>guild_roles\<close>.
  \<open>discord.utils.get(..., name=role_name)\<close> is the first role of that name. A
  \<open>Forbidden\<close> from either call is passed over; any other exception leaves the function.
  The result is the member as the external system then has it and what the call returned.
\<close>

definition sync_member_fp_role ::
  "discord_api \<Rightarrow> role list \<Rightarrow> member \<Rightarrow> int \<Rightarrow> member \<times> (error + bool)" where
  "sync_member_fp_role api guild_roles m new_fp =
     (let roles_to_remove = filter is_fp_role (roles m);
          (held1, out1) =
             (if roles_to_remove \<noteq> []
              then remove_roles (remove_outcome api (member_id m)) (roles m) roles_to_remove
              else (roles m, Done))
      in if out1 = Failed then (m\<lparr>roles := held1\<rparr>, Inl HTTPException)
         else
           (case find (\<lambda>r. name r = fp_role_name new_fp) guild_roles of
              None \<Rightarrow> (m\<lparr>roles := held1\<rparr>, Inr False)
            | Some target_role \<Rightarrow>
                (let (held2, out2) = add_roles (add_outcome api (member_id m)) held1 [target_role]
                 in if out2 = Failed then (m\<lparr>roles := held2\<rparr>, Inl HTTPException)
                    else (m\<lparr>roles := held2\<rparr>, Inr True))))"

section \<open>Score commands\<close>

text \<open>
  The bodies of \<open>fp\<close> and \<open>fpset\<close> (the permission check is \<open>checked_command\<close>). Each
  returns the database and the member as the command leaves them, also when it raises,
  and the new score with the flag \<open>existed\<close> when it replies.
\<close>

definition fp ::
  "discord_api \<Rightarrow> role list \<Rightarrow> database \<Rightarrow> member \<Rightarrow> int
     \<Rightarrow> database \<times> member \<times> (error + (int \<times> bool))" where
  "fp api guild_roles db m delta =
     (case apply_delta db (member_id m) delta of
        Inl e \<Rightarrow> (db, m, Inl e)
      | Inr (db', new) \<Rightarrow>
          (case sync_member_fp_role api guild_roles m new of
             (m', Inl e) \<Rightarrow> (db', m', Inl e)
           | (m', Inr existed) \<Rightarrow> (db', m', Inr (new, existed))))"

definition fpset ::
  "discord_api \<Rightarrow> role list \<Rightarrow> database \<Rightarrow> member \<Rightarrow> int
     \<Rightarrow> database \<times> member \<times> (error + (int \<times> bool))" where
  "fpset api guild_roles db m val =
     (case set_fp db (member_id m) val of
        Inl e \<Rightarrow> (db, m, Inl e)
      | Inr db' \<Rightarrow>
          (case sync_member_fp_role api guild_roles m val of
             (m', Inl e) \<Rightarrow> (db', m', Inl e)
           | (m', Inr existed) \<Rightarrow> (db', m', Inr (val, existed))))"

text \<open>
  \<open>fpall\<close>: the loop over \<open>ctx.guild.members\<close>. The state is the database, the members
  already visited (as the loop leaves them) and the three counters. \<open>except Exception:
  continue\<close> passes over a member whose score write or role sync raised.
\<close>

record tally =
  updated :: nat
  skipped_bots :: nat
  failed_syncs :: nat

fun fpall_loop ::
  "discord_api \<Rightarrow> role list \<Rightarrow> int \<Rightarrow> member list \<Rightarrow> database \<times> member list \<times> tally
     \<Rightarrow> database \<times> member list \<times> tally" where
  "fpall_loop api guild_roles delta [] acc = acc"
| "fpall_loop api guild_roles delta (m # ms) (db, seen, t) =
     (if is_bot m
      then fpall_loop api guild_roles delta ms
             (db, seen @ [m], t\<lparr>skipped_bots := skipped_bots t + 1\<rparr>)
      else
        (case apply_delta db (member_id m) delta of
           Inl e \<Rightarrow> fpall_loop api guild_roles delta ms (db, seen @ [m], t)
         | Inr (db', new) \<Rightarrow>
             (case sync_member_fp_role api guild_roles m new of
                (m', Inl e) \<Rightarrow> fpall_loop api guild_roles delta ms (db', seen @ [m'], t)
              | (m', Inr existed) \<Rightarrow>
                  fpall_loop api guild_roles delta ms
                    (db', seen @ [m'],
                     t\<lparr>failed_syncs := (if existed then failed_syncs t else failed_syncs t + 1),
                       updated := updated t + 1\<rparr>))))"

definition fpall ::
  "discord_api \<Rightarrow> role list \<Rightarrow> int \<Rightarrow> member list \<Rightarrow> database
     \<Rightarrow> database \<times> member list \<times> tally" where
  "fpall api guild_roles delta members db =
     fpall_loop api guild_roles delta members
       (db, [], \<lparr>updated = 0, skipped_bots = 0, failed_syncs = 0\<rparr>)"

section \<open>Example inputs\<close>

definition empty_db :: database where
  "empty_db = \<lparr>user_fp = Map.empty, user_warnings = None, uw_new = None\<rparr>"

definition api_allow :: discord_api where
  "api_allow = \<lparr>remove_outcome = (\<lambda>uid r. Done), add_outcome = (\<lambda>uid r. Done)\<rparr>"

definition plain_member :: "int \<Rightarrow> member" where
  "plain_member uid = \<lparr>member_id = uid, is_bot = False, roles = []\<rparr>"

definition warning_row :: "int \<Rightarrow> int \<Rightarrow> string \<Rightarrow> string \<Rightarrow> wrow" where
  "warning_row i uid r d = \<lparr>rid = i, user_id = uid, reason = Some r, date = Some d, warnings = None\<rparr>"

definition three_warnings_table :: table where
  "three_warnings_table =
     \<lparr>columns = current_columns,
      rows = [warning_row 1 5 ''w1'' ''2024-01-01'', warning_row 2 6 ''other'' ''2024-01-01'',
              warning_row 3 5 ''w2'' ''2024-01-02'', warning_row 4 5 ''w3'' ''2024-01-02''],
      sqlite_sequence = 4\<rparr>"

definition three_warnings_db :: database where
  "three_warnings_db = \<lparr>user_fp = Map.empty, user_warnings = Some three_warnings_table, uw_new = None\<rparr>"

section \<open>Auxiliary definitions for the proofs\<close>

text \<open>
  A sequence of single-row inserts as one fold, the inserts the oldest legacy shape gives
  rise to, and the empty table the migration's \<open>CREATE\<close> makes.
\<close>

definition insert_all :: "table \<Rightarrow> (int \<times> string \<times> string) list \<Rightarrow> table" where
  "insert_all n xs = foldl (\<lambda>n' (u, r, d). insert_row n' u r d) n xs"

definition legacy_inserts :: "wrow list \<Rightarrow> string \<Rightarrow> (int \<times> string \<times> string) list" where
  "legacy_inserts rs today =
     concat (map (\<lambda>r. replicate (legacy_count r) (user_id r, migrated_reason, today)) rs)"

definition empty_current_table :: table where
  "empty_current_table = \<lparr>columns = current_columns, rows = [], sqlite_sequence = 0\<rparr>"

text \<open>Further example inputs: a legacy table in the oldest shape and its migration.\<close>

definition legacy_table :: table where
  "legacy_table =
     \<lparr>columns = [''user_id'', ''warnings''],
      rows = [\<lparr>rid = 1, user_id = 5, reason = None, date = None, warnings = Some 3\<rparr>],
      sqlite_sequence = 0\<rparr>"

definition legacy_db :: database where
  "legacy_db = \<lparr>user_fp = Map.empty, user_warnings = Some legacy_table, uw_new = None\<rparr>"

text \<open>
  The file an interrupted migration of \<open>legacy_db\<close> leaves behind: the legacy table
  beside the empty scratch table.
\<close>

definition interrupted_legacy_db :: database where
  "interrupted_legacy_db = legacy_db\<lparr>uw_new := Some empty_current_table\<rparr>"

definition migrated_legacy_db :: database where
  "migrated_legacy_db =
     \<lparr>user_fp = Map.empty,
      user_warnings = Some
        \<lparr>columns = current_columns,
         rows = [warning_row 1 5 migrated_reason ''2024-01-01'',
                 warning_row 2 5 migrated_reason ''2024-01-01'',
                 warning_row 3 5 migrated_reason ''2024-01-01''],
         sqlite_sequence = 3\<rparr>,
      uw_new = None\<rparr>"

text \<open>A legacy table in the oldest shape whose only count is 0.\<close>

definition zero_legacy_table :: table where
  "zero_legacy_table =
     \<lparr>columns = [''user_id'', ''warnings''],
      rows = [\<lparr>rid = 1, user_id = 5, reason = None, date = None, warnings = Some 0\<rparr>],
      sqlite_sequence = 0\<rparr>"

definition zero_legacy_db :: database where
  "zero_legacy_db = \<lparr>user_fp = Map.empty, user_warnings = Some zero_legacy_table, uw_new = None\<rparr>"

text \<open>
  Roles, members holding them, and external systems that refuse every removal or the
  removal of one label only.
\<close>

definition label :: "int \<Rightarrow> string \<Rightarrow> role" where
  "label i s = \<lparr>role_id = i, name = s\<rparr>"


definition api_refuse_7 :: discord_api where
  "api_refuse_7 = \<lparr>remove_outcome = (\<lambda>uid r. if name r = ''7 FP'' then Forbidden else Done),
                    add_outcome = (\<lambda>uid r. Done)\<rparr>"

definition holder :: "role list \<Rightarrow> member" where
  "holder rs = \<lparr>member_id = 1, is_bot = False, roles = rs\<rparr>"

text \<open>A bot member holding a score label, and a database in which it has a score.\<close>

definition bot_member :: member where
  "bot_member = \<lparr>member_id = 1, is_bot = True, roles = [label 5 ''5 FP'']\<rparr>"

definition scored_db :: database where
  "scored_db = \<lparr>user_fp = Map.empty(1 \<mapsto> 10), user_warnings = None, uw_new = None\<rparr>"

section \<open>Theorems\<close>

subsection \<open>Abuse gate\<close>

lemma predicate_unauthorized:
  assumes "\<not> manage_roles perms" "\<not> administrator perms"
  shows "predicate perms uid now st =
           (let c = (if now - snd (attempts_get st uid) > 60 then 0 else fst (attempts_get st uid)) + 1
            in (st(uid \<mapsto> (c, now)), False,
                Some (if c \<ge> 3 then EscalatedMessage else DefaultMessage)))"
  using assms
  by (simp add: predicate_def Let_def MAX_ATTEMPTS_def WINDOW_SECONDS_def split: prod.splits)

lemma attempts_get_upd: "attempts_get (st(uid \<mapsto> v)) uid = v"
  by (simp add: attempts_get_def)

text \<open>
  C3. A caller without the permission is always denied (the decorated command body does
  not run) and the counter becomes (c, now), where c is one more than the old count, or 1
  when more than 60 time units passed since the last attempt; the message is the
  escalated one exactly when c has reached 3. So from a count of 0, three attempts each
  within 60 units of the previous one give default, default, escalated, and an attempt
  more than 60 units later gives the default message again with the count back at 1.
\<close>

theorem abuse_gate_unauthorized:
  assumes "\<not> manage_roles perms" and "\<not> administrator perms"
  shows "(let c = (if now - snd (attempts_get st uid) > 60 then 0
                   else fst (attempts_get st uid)) + 1
          in predicate perms uid now st =
               (st(uid \<mapsto> (c, now)), False,
                Some (if c \<ge> 3 then EscalatedMessage else DefaultMessage))
             \<and> checked_command perms uid now body (st, s) =
                 ((st(uid \<mapsto> (c, now)), s),
                  Some (if c \<ge> 3 then EscalatedMessage else DefaultMessage)))
         \<and> (fst (attempts_get st uid) = 0 \<and> t2 - t1 \<le> 60 \<and> t3 - t2 \<le> 60 \<and> t4 - t3 > 60 \<longrightarrow>
              attempts_run perms uid [t1, t2, t3, t4] st =
                (st(uid \<mapsto> (1, t4)),
                 [Some DefaultMessage, Some DefaultMessage, Some EscalatedMessage,
                  Some DefaultMessage]))"
proof -
  note step = predicate_unauthorized [OF assms]
  have one: "\<And>now st. (let c = (if now - snd (attempts_get st uid) > 60 then 0
                   else fst (attempts_get st uid)) + 1
          in predicate perms uid now st =
               (st(uid \<mapsto> (c, now)), False,
                Some (if c \<ge> 3 then EscalatedMessage else DefaultMessage))
             \<and> checked_command perms uid now body (st, s) =
                 ((st(uid \<mapsto> (c, now)), s),
                  Some (if c \<ge> 3 then EscalatedMessage else DefaultMessage)))"
    by (simp add: step checked_command_def Let_def)
  have run: "attempts_run perms uid [t1, t2, t3, t4] st =
                (st(uid \<mapsto> (1, t4)),
                 [Some DefaultMessage, Some DefaultMessage, Some EscalatedMessage,
                  Some DefaultMessage])"
    if "fst (attempts_get st uid) = 0" "t2 - t1 \<le> 60" "t3 - t2 \<le> 60" "t4 - t3 > 60"
    using that by (simp add: step Let_def attempts_get_upd)
  show ?thesis using one run by blast
qed

theorem abuse_gate_unauthorized_witness:
  "attempts_run \<lparr>manage_roles = False, administrator = False\<rparr> 7 [100, 130, 150, 300] Map.empty =
     (Map.empty(7 \<mapsto> (1, 300)),
      [Some DefaultMessage, Some DefaultMessage, Some EscalatedMessage, Some DefaultMessage])
   \<and> predicate \<lparr>manage_roles = False, administrator = False\<rparr> 7 100 Map.empty =
       (Map.empty(7 \<mapsto> (1, 100)), False, Some DefaultMessage)"
proof -
  have "fst (attempts_get Map.empty (7::int)) = 0 \<and> (130::real) - 100 \<le> 60
          \<and> (150::real) - 130 \<le> 60 \<and> (300::real) - 150 > 60"
    by (simp add: attempts_get_def)
  moreover have "(if (100::real) - snd (attempts_get Map.empty (7::int)) > 60 then 0
                  else fst (attempts_get Map.empty (7::int))) + 1 = 1"
    by (simp add: attempts_get_def)
  ultimately show ?thesis
    using abuse_gate_unauthorized
          [of "\<lparr>manage_roles = False, administrator = False\<rparr>" 100 Map.empty 7 id "()" 130 100 150 300]
    by (simp add: Let_def del: attempts_run.simps)
qed

text \<open>
  C7 as stated: an authorized call leaves the counter at (0, now). At clock reading 100
  the stored pair is (0, 0), not (0, 100).
\<close>

theorem authorized_reset_not_now:
  "attempts_get (fst (predicate \<lparr>manage_roles = True, administrator = False\<rparr> 1 100 Map.empty)) 1
     \<noteq> (0, 100)"
  by (simp add: predicate_def attempts_get_def)

text \<open>
  C7, amended. An authorized call (manage-roles or administrator permission) stores the
  initial pair (0, 0.0) for the caller, whatever the clock says, sends no message and
  allows the command, whose body then runs.
\<close>

theorem authorized_resets_to_initial:
  assumes "manage_roles perms \<or> administrator perms"
  shows "predicate perms uid now st = (st(uid \<mapsto> (0, 0)), True, None)
         \<and> attempts_get (st(uid \<mapsto> (0, 0))) uid = (0, 0)
         \<and> checked_command perms uid now body (st, s) = ((st(uid \<mapsto> (0, 0)), body s), None)"
  using assms by (auto simp: predicate_def checked_command_def attempts_get_def)

theorem authorized_resets_to_initial_witness:
  "predicate \<lparr>manage_roles = False, administrator = True\<rparr> 1 100 (Map.empty(1 \<mapsto> (2, 90)))
     = ((Map.empty(1 \<mapsto> (2, 90)))(1 \<mapsto> (0, 0)), True, None)"
  using authorized_resets_to_initial
          [of "\<lparr>manage_roles = False, administrator = True\<rparr>" 1 100 "Map.empty(1 \<mapsto> (2, 90))" id "()"]
  by simp

subsection \<open>Role synchronizer: basic facts\<close>

lemma remove_roles_shape:
  "remove_roles req held rs =
     (filter (\<lambda>r. r \<notin> set (takeWhile (\<lambda>r. req r = Done) rs)) held,
      (case dropWhile (\<lambda>r. req r = Done) rs of [] \<Rightarrow> Done | r # _ \<Rightarrow> req r))"
proof (induction rs arbitrary: held)
  case Nil
  then show ?case by simp
next
  case (Cons r rs)
  show ?case
  proof (cases "req r")
    case Done
    have "filter (\<lambda>x. x \<notin> set (takeWhile (\<lambda>r. req r = Done) rs)) (removeAll r held)
            = filter (\<lambda>x. x \<noteq> r \<and> x \<notin> set (takeWhile (\<lambda>r. req r = Done) rs)) held"
      by (induction held) auto
    with Done Cons.IH [of "removeAll r held"] show ?thesis by simp
  next
    case Forbidden
    then show ?thesis by simp
  next
    case Failed
    then show ?thesis by simp
  qed
qed

lemma sync_member_id: "member_id (fst (sync_member_fp_role api gr m n)) = member_id m"
  by (simp add: sync_member_fp_role_def Let_def split: prod.splits option.splits)

lemma sync_is_bot: "is_bot (fst (sync_member_fp_role api gr m n)) = is_bot m"
  by (simp add: sync_member_fp_role_def Let_def split: prod.splits option.splits)

lemma sync_member_id_pair:
  "sync_member_fp_role api gr m n = (m', r) \<Longrightarrow> member_id m' = member_id m"
  using sync_member_id [of api gr m n] by simp

lemma sync_is_bot_pair:
  "sync_member_fp_role api gr m n = (m', r) \<Longrightarrow> is_bot m' = is_bot m"
  using sync_is_bot [of api gr m n] by simp

subsection \<open>Scores\<close>

lemma fp_database:
  "fst (fp api gr db m d) = (case apply_delta db (member_id m) d of Inl e \<Rightarrow> db | Inr (db', new) \<Rightarrow> db')"
  by (simp add: fp_def split: sum.splits prod.splits)

lemma fp_member_id: "member_id (fst (snd (fp api gr db m d))) = member_id m"
  by (auto simp: fp_def split: sum.splits prod.splits dest: sync_member_id_pair)

lemma fpset_database:
  "fst (fpset api gr db m v) = (case set_fp db (member_id m) v of Inl e \<Rightarrow> db | Inr db' \<Rightarrow> db')"
  by (simp add: fpset_def split: sum.splits prod.splits)

text \<open>
  C4 as stated, for all integers: with a = 2^63 - 1 and b = 1 on a user without a score,
  the first \<open>fp\<close> stores a, the second raises \<open>OverflowError\<close> in \<open>set_fp\<close> and leaves a
  stored, while \<open>fpset\<close> with a + b = 2^63 raises as well and leaves the score absent,
  which reads as 0.
\<close>

theorem delta_twice_differs_from_set:
  "get_fp (fst (fp api_allow []
                  (fst (fp api_allow [] empty_db (plain_member 1) (2 ^ 63 - 1)))
                  (fst (snd (fp api_allow [] empty_db (plain_member 1) (2 ^ 63 - 1)))) 1)) 1
     = 2 ^ 63 - 1
   \<and> get_fp (fst (fpset api_allow [] empty_db (plain_member 1) ((2 ^ 63 - 1) + 1))) 1 = 0"
  by (simp add: fp_database fpset_database fp_member_id apply_delta_def set_fp_def get_fp_def
        in_int64_def empty_db_def plain_member_def)

text \<open>
  C4, amended. For a user without a stored score and integers a, b such that a and a + b
  fit the store's signed 64-bit range: the \<open>fp\<close> command with a reads 0, writes a and
  yields a; a second \<open>fp\<close> with b reads a, writes a + b and yields a + b; the database is
  then the one a single \<open>fpset\<close> to a + b produces from the initial state, with a + b
  stored for the user. Role sync has no part in it.
\<close>

theorem delta_twice_equals_set:
  assumes "user_fp db (member_id m) = None" and "in_int64 a" and "in_int64 (a + b)"
  shows "apply_delta db (member_id m) a = Inr (fst (fp api gr db m a), a)
         \<and> apply_delta (fst (fp api gr db m a)) (member_id m) b
             = Inr (fst (fp api gr (fst (fp api gr db m a)) (fst (snd (fp api gr db m a))) b), a + b)
         \<and> fst (fp api gr (fst (fp api gr db m a)) (fst (snd (fp api gr db m a))) b)
             = fst (fpset api gr db m (a + b))
         \<and> get_fp (fst (fpset api gr db m (a + b))) (member_id m) = a + b"
  using assms
  by (simp add: fp_database fpset_database fp_member_id apply_delta_def set_fp_def get_fp_def
        Let_def)

theorem delta_twice_equals_set_witness:
  "get_fp (fst (fp api_allow [] (fst (fp api_allow [] empty_db (plain_member 1) 5))
                  (fst (snd (fp api_allow [] empty_db (plain_member 1) 5))) (- 8))) 1 = - 3
   \<and> get_fp (fst (fpset api_allow [] empty_db (plain_member 1) (- 3))) 1 = - 3"
proof -
  have h: "user_fp empty_db (member_id (plain_member 1)) = None" "in_int64 5" "in_int64 (5 + - 8)"
    by (simp_all add: empty_db_def in_int64_def)
  show ?thesis
    using delta_twice_equals_set [OF h, of api_allow "[]"]
    by (simp add: plain_member_def)
qed

subsection \<open>Warnings\<close>

lemma sort_key_Cons_min:
  assumes "sort_key f xs = y # ys"
  shows "y \<in> set xs \<and> (\<forall>x\<in>set xs. f y \<le> f x)"
proof -
  have "set (sort_key f xs) = set xs" by simp
  moreover have "sorted (map f (sort_key f xs))" by (rule sorted_sort_key)
  ultimately show ?thesis using assms by auto
qed

lemma filter_rid_distinct:
  assumes "distinct (map rid xs)" and "w \<in> set xs"
  shows "filter (\<lambda>x. rid x \<noteq> rid w) xs = filter (\<lambda>x. x \<noteq> w) xs"
proof (rule filter_cong [OF refl])
  fix x assume "x \<in> set xs"
  with assms show "(rid x \<noteq> rid w) = (x \<noteq> w)"
    by (auto simp: distinct_map dest: inj_onD)
qed

lemma filter_not_last:
  assumes "distinct ys" and "ys \<noteq> []"
  shows "filter (\<lambda>x. x \<noteq> last ys) ys = butlast ys"
proof -
  have ys: "ys = butlast ys @ [last ys]" using assms(2) by simp
  then have "last ys \<notin> set (butlast ys)"
    using assms(1) by (metis distinct_append distinct.simps(2) disjoint_iff list.set_intros(1))
  then have "filter (\<lambda>x. x \<noteq> last ys) (butlast ys) = butlast ys"
    by (auto simp: filter_id_conv)
  then have "filter (\<lambda>x. x \<noteq> last ys) (butlast ys @ [last ys]) = butlast ys" by simp
  with ys show ?thesis by simp
qed

lemma sorted_last_max:
  assumes "sorted (map f ys)" and "x \<in> set ys"
  shows "f x \<le> f (last ys)"
  using assms
proof (induction ys)
  case Nil
  then show ?case by simp
next
  case (Cons a ys)
  then show ?case by (cases "ys = []") auto
qed

lemma remove_max_butlast:
  assumes d: "distinct (map rid xs)" and w: "w \<in> set xs" and mx: "\<forall>x\<in>set xs. rid x \<le> rid w"
  shows "sort_key rid (filter (\<lambda>x. x \<noteq> w) xs) = butlast (sort_key rid xs)"
proof -
  let ?ys = "sort_key rid xs"
  have ne: "?ys \<noteq> []" using w by (metis empty_iff list.set(1) set_sort)
  have dys: "distinct (map rid ?ys)"
    using d by (metis distinct_map distinct_sort set_sort)
  have "last ?ys \<in> set xs" using ne by (metis last_in_set set_sort)
  then have "rid (last ?ys) \<le> rid w" using mx by blast
  moreover have "rid w \<le> rid (last ?ys)"
    using sorted_last_max [of rid ?ys w] w by (simp add: sorted_sort_key)
  ultimately have "rid (last ?ys) = rid w" by simp
  then have lw: "last ?ys = w"
    using d w \<open>last ?ys \<in> set xs\<close> by (auto simp: distinct_map dest: inj_onD)
  have "sort_key rid (filter (\<lambda>x. x \<noteq> w) xs) = filter (\<lambda>x. x \<noteq> w) ?ys"
    by (simp add: filter_sort)
  also have "\<dots> = butlast ?ys"
    using filter_not_last [of ?ys] dys ne lw by (simp add: distinct_map)
  finally show ?thesis .
qed

text \<open>
  C9. On a warnings table that has the id and user columns, with ids unique (the primary
  key): when the user has no record, \<open>remove_last_warning\<close> returns \<open>False\<close> and the
  database is unchanged; otherwise it returns \<open>True\<close> and deletes exactly one row, the
  user's row with the highest id, so that the user's records in id order lose their last
  element and every other user's records stay as they were.
\<close>

theorem remove_last_warning_correct:
  assumes t: "user_warnings db = Some t"
      and cols: "''id'' \<in> set (columns t)" "''user_id'' \<in> set (columns t)"
      and pk: "distinct (map rid (rows t))"
  shows "(filter (\<lambda>r. user_id r = uid) (rows t) = [] \<longrightarrow>
            remove_last_warning db uid = Inr (db, False))
       \<and> (filter (\<lambda>r. user_id r = uid) (rows t) \<noteq> [] \<longrightarrow>
            (\<exists>w\<in>set (rows t). user_id w = uid
               \<and> (\<forall>r\<in>set (rows t). user_id r = uid \<longrightarrow> rid r \<le> rid w)
               \<and> remove_last_warning db uid =
                   Inr (db\<lparr>user_warnings := Some (t\<lparr>rows := filter (\<lambda>r. r \<noteq> w) (rows t)\<rparr>)\<rparr>, True)
               \<and> sort_key rid (filter (\<lambda>r. user_id r = uid) (filter (\<lambda>r. r \<noteq> w) (rows t)))
                   = butlast (sort_key rid (filter (\<lambda>r. user_id r = uid) (rows t)))
               \<and> (\<forall>u. u \<noteq> uid \<longrightarrow>
                     filter (\<lambda>r. user_id r = u) (filter (\<lambda>r. r \<noteq> w) (rows t))
                       = filter (\<lambda>r. user_id r = u) (rows t))))"
proof (intro conjI impI)
  assume "filter (\<lambda>r. user_id r = uid) (rows t) = []"
  then show "remove_last_warning db uid = Inr (db, False)"
    using t cols by (simp add: remove_last_warning_def)
next
  let ?xs = "filter (\<lambda>r. user_id r = uid) (rows t)"
  assume ne: "?xs \<noteq> []"
  then have "sort_key (\<lambda>r. - rid r) ?xs \<noteq> []"
    by (metis length_0_conv length_sort)
  then obtain w ws where s: "sort_key (\<lambda>r. - rid r) ?xs = w # ws"
    by (cases "sort_key (\<lambda>r. - rid r) ?xs") auto
  from sort_key_Cons_min [OF s] have wx: "w \<in> set ?xs" and mx: "\<forall>x\<in>set ?xs. rid x \<le> rid w"
    by auto
  then have w: "w \<in> set (rows t)" "user_id w = uid" by auto
  have res: "remove_last_warning db uid =
               Inr (db\<lparr>user_warnings := Some (t\<lparr>rows := filter (\<lambda>r. r \<noteq> w) (rows t)\<rparr>)\<rparr>, True)"
    using t cols s filter_rid_distinct [OF pk w(1)] by (simp add: remove_last_warning_def)
  have dx: "distinct (map rid ?xs)" using pk by (simp add: distinct_map_filter)
  have "filter (\<lambda>r. user_id r = uid) (filter (\<lambda>r. r \<noteq> w) (rows t)) = filter (\<lambda>r. r \<noteq> w) ?xs"
    by (induction "rows t") (auto simp: filter_filter conj_commute)
  then have bl: "sort_key rid (filter (\<lambda>r. user_id r = uid) (filter (\<lambda>r. r \<noteq> w) (rows t)))
                   = butlast (sort_key rid ?xs)"
    using remove_max_butlast [OF dx wx mx] by simp
  have others: "\<forall>u. u \<noteq> uid \<longrightarrow>
                  filter (\<lambda>r. user_id r = u) (filter (\<lambda>r. r \<noteq> w) (rows t))
                    = filter (\<lambda>r. user_id r = u) (rows t)"
    using w(2) by (auto simp: filter_filter intro!: filter_cong)
  show "\<exists>w\<in>set (rows t). user_id w = uid
               \<and> (\<forall>r\<in>set (rows t). user_id r = uid \<longrightarrow> rid r \<le> rid w)
               \<and> remove_last_warning db uid =
                   Inr (db\<lparr>user_warnings := Some (t\<lparr>rows := filter (\<lambda>r. r \<noteq> w) (rows t)\<rparr>)\<rparr>, True)
               \<and> sort_key rid (filter (\<lambda>r. user_id r = uid) (filter (\<lambda>r. r \<noteq> w) (rows t)))
                   = butlast (sort_key rid (filter (\<lambda>r. user_id r = uid) (rows t)))
               \<and> (\<forall>u. u \<noteq> uid \<longrightarrow>
                     filter (\<lambda>r. user_id r = u) (filter (\<lambda>r. r \<noteq> w) (rows t))
                       = filter (\<lambda>r. user_id r = u) (rows t))"
    using w mx res bl others by (intro bexI [of _ w]) auto
qed


theorem remove_last_warning_correct_witness:
  "user_warnings three_warnings_db = Some three_warnings_table
   \<and> distinct (map rid (rows three_warnings_table))
   \<and> remove_last_warning three_warnings_db 5 =
       Inr (three_warnings_db\<lparr>user_warnings := Some (three_warnings_table\<lparr>rows :=
              [warning_row 1 5 ''w1'' ''2024-01-01'', warning_row 2 6 ''other'' ''2024-01-01'',
               warning_row 3 5 ''w2'' ''2024-01-02'']\<rparr>)\<rparr>, True)
   \<and> remove_last_warning three_warnings_db 7 = Inr (three_warnings_db, False)"
proof -
  have h: "user_warnings three_warnings_db = Some three_warnings_table"
    "''id'' \<in> set (columns three_warnings_table)" "''user_id'' \<in> set (columns three_warnings_table)"
    "distinct (map rid (rows three_warnings_table))"
    by (simp_all add: three_warnings_db_def three_warnings_table_def current_columns_def
          warning_row_def)
  have none: "filter (\<lambda>r. user_id r = 7) (rows three_warnings_table) = []"
    by (simp add: three_warnings_table_def warning_row_def)
  have some: "filter (\<lambda>r. user_id r = 5) (rows three_warnings_table) \<noteq> []"
    by (simp add: three_warnings_table_def warning_row_def)
  from remove_last_warning_correct [OF h, of 7] none
  have r7: "remove_last_warning three_warnings_db 7 = Inr (three_warnings_db, False)" by blast
  from remove_last_warning_correct [OF h, of 5] some
  obtain w where w: "w \<in> set (rows three_warnings_table)" "user_id w = 5"
      "\<forall>r\<in>set (rows three_warnings_table). user_id r = 5 \<longrightarrow> rid r \<le> rid w"
      "remove_last_warning three_warnings_db 5 =
         Inr (three_warnings_db\<lparr>user_warnings := Some (three_warnings_table\<lparr>rows :=
                filter (\<lambda>r. r \<noteq> w) (rows three_warnings_table)\<rparr>)\<rparr>, True)"
    by blast
  from w(1,2,3) have "w = warning_row 4 5 ''w3'' ''2024-01-02''"
    by (auto simp: three_warnings_table_def warning_row_def)
  with w(4) have "remove_last_warning three_warnings_db 5 =
       Inr (three_warnings_db\<lparr>user_warnings := Some (three_warnings_table\<lparr>rows :=
              [warning_row 1 5 ''w1'' ''2024-01-01'', warning_row 2 6 ''other'' ''2024-01-01'',
               warning_row 3 5 ''w2'' ''2024-01-02'']\<rparr>)\<rparr>, True)"
    by (simp add: three_warnings_table_def warning_row_def)
  with h(1,4) r7 show ?thesis by simp
qed

lemma fold_max_ge: "(b::int) \<le> fold max xs b \<and> (\<forall>x\<in>set xs. x \<le> fold max xs b)"
proof (induction xs arbitrary: b)
  case Nil
  then show ?case by simp
next
  case (Cons a xs)
  from Cons.IH [of "max a b"] show ?case by auto
qed

lemma next_rowid_gt: "r \<in> set (rows t) \<Longrightarrow> rid r < next_rowid t"
  using fold_max_ge [of 0 "map rid (rows t)"] by (auto simp: next_rowid_def)

lemma insort_key_snoc:
  "f a \<le> f x \<Longrightarrow> insort_key f a (ys @ [x]) = insort_key f a ys @ [x]"
  by (induction ys) auto

lemma sort_key_snoc:
  "\<forall>y\<in>set xs. f y \<le> f x \<Longrightarrow> sort_key f (xs @ [x]) = sort_key f xs @ [x]"
  by (induction xs) (auto simp: insort_key_snoc)

lemma insert_row_listing:
  "map (\<lambda>r. (reason r, date r)) (sort_key rid (filter (\<lambda>r. user_id r = uid) (rows (insert_row t uid r d))))
     = map (\<lambda>r. (reason r, date r)) (sort_key rid (filter (\<lambda>r. user_id r = uid) (rows t))) @ [(Some r, Some d)]"
proof -
  have "\<forall>y\<in>set (filter (\<lambda>r. user_id r = uid) (rows t)). rid y \<le> next_rowid t"
    using next_rowid_gt [of _ t] by fastforce
  then show ?thesis
    by (simp add: insert_row_def sort_key_snoc)
qed

lemma insert_row_other:
  "u \<noteq> uid \<Longrightarrow> filter (\<lambda>r. user_id r = u) (rows (insert_row t uid r d)) = filter (\<lambda>r. user_id r = u) (rows t)"
  by (simp add: insert_row_def)

lemma insert_row_columns [simp]: "columns (insert_row t uid r d) = columns t"
  by (simp add: insert_row_def)

text \<open>
  On a warnings table that is missing or has the four current columns (and no legacy
  count column), \<open>warn\<close> appends one record whose reason is the supplied one, or the
  canned one for an empty or absent reason, dated today; the user's listing grows by
  exactly that record at its end.
\<close>

lemma warn_current_shape:
  assumes "create_table_if_not_exists current_columns (user_warnings db) = t"
      and "set current_columns \<subseteq> set (columns t)" and "''warnings'' \<notin> set (columns t)"
  shows "add_warning db uid (warn_reason r) today
           = Inr (db\<lparr>user_warnings := Some (insert_row t uid (warn_reason r) today)\<rparr>)"
    and "warn db uid r today
           = Inr (db\<lparr>user_warnings := Some (insert_row t uid (warn_reason r) today)\<rparr>,
                  Suc (length (filter (\<lambda>x. user_id x = uid) (rows t))))"
    and "get_all_warnings (db\<lparr>user_warnings := Some (insert_row t uid (warn_reason r) today)\<rparr>) uid
           = Inr (db\<lparr>user_warnings := Some (insert_row t uid (warn_reason r) today)\<rparr>,
                  map (\<lambda>x. (reason x, date x)) (sort_key rid (filter (\<lambda>x. user_id x = uid) (rows t)))
                    @ [(Some (warn_reason r), Some today)])"
proof -
  have ie: "insert_error t = None"
    using assms(2,3) by (auto simp: insert_error_def current_columns_def)
  show a: "add_warning db uid (warn_reason r) today
           = Inr (db\<lparr>user_warnings := Some (insert_row t uid (warn_reason r) today)\<rparr>)"
    using assms(1) ie by (simp add: add_warning_def)
  show g: "get_all_warnings (db\<lparr>user_warnings := Some (insert_row t uid (warn_reason r) today)\<rparr>) uid
           = Inr (db\<lparr>user_warnings := Some (insert_row t uid (warn_reason r) today)\<rparr>,
                  map (\<lambda>x. (reason x, date x)) (sort_key rid (filter (\<lambda>x. user_id x = uid) (rows t)))
                    @ [(Some (warn_reason r), Some today)])"
    using assms(2) insert_row_listing
    by (simp add: get_all_warnings_def create_table_if_not_exists_def current_columns_def)
  show "warn db uid r today
           = Inr (db\<lparr>user_warnings := Some (insert_row t uid (warn_reason r) today)\<rparr>,
                  Suc (length (filter (\<lambda>x. user_id x = uid) (rows t))))"
    by (simp add: warn_def a g)
qed

text \<open>
  C8, evaluated on a fresh database file. Module start creates \<open>user_warnings\<close> with the
  columns id and user_id only and the migration leaves it so (there is no \<open>warnings\<close>
  column); the \<open>CREATE TABLE IF NOT EXISTS\<close> of \<open>add_warning\<close> then keeps that table, and
  its \<open>INSERT\<close> names the missing columns reason and date: \<open>add_warning\<close>, and with it the
  \<open>warn\<close> command, raises \<open>OperationalError\<close> and no record is appended.
\<close>

theorem warn_raises_after_fresh_startup:
  "startup empty_db today = Inr (ensure_warning_schema empty_db)
   \<and> add_warning (ensure_warning_schema empty_db) uid r today' = Inl OperationalError
   \<and> warn (ensure_warning_schema empty_db) uid reason_arg today' = Inl OperationalError"
  by (simp add: startup_def migrate_user_warnings_table_def ensure_warning_schema_def
        empty_db_def create_table_if_not_exists_def minimal_columns_def add_warning_def
        warn_def insert_error_def)

subsection \<open>Schema migrator\<close>

lemma insert_all_Nil [simp]: "insert_all n [] = n"
  by (simp add: insert_all_def)

lemma insert_all_Cons [simp]:
  "insert_all n ((u, r, d) # xs) = insert_all (insert_row n u r d) xs"
  by (simp add: insert_all_def)

lemma insert_error_insert_row [simp]: "insert_error (insert_row n u r d) = insert_error n"
  by (simp add: insert_error_def insert_row_def)

lemma insert_all_columns [simp]: "columns (insert_all n xs) = columns n"
  by (induction xs arbitrary: n) (auto simp: insert_row_def)

lemma insert_all_rows:
  "map (\<lambda>r. (user_id r, reason r, date r)) (rows (insert_all n xs))
     = map (\<lambda>r. (user_id r, reason r, date r)) (rows n) @ map (\<lambda>(u, r, d). (u, Some r, Some d)) xs"
  by (induction xs arbitrary: n) (auto simp: insert_row_def)

lemma run_stmts_append:
  "run_stmts c (xs @ ys) = (case run_stmts c xs of Inl e \<Rightarrow> Inl e | Inr c' \<Rightarrow> run_stmts c' ys)"
  by (induction xs arbitrary: c) (auto split: sum.splits)

lemma run_inserts:
  assumes "uw_new (working c) = Some n" and "insert_error n = None"
  shows "\<exists>c'. run_stmts c (map (\<lambda>(u, r, d). InsertUwNew u r d) xs) = Inr c'
              \<and> durable c' = durable c
              \<and> working c' = (working c)\<lparr>uw_new := Some (insert_all n xs)\<rparr>
              \<and> in_transaction c' = (in_transaction c \<or> xs \<noteq> [])"
  using assms
proof (induction xs arbitrary: c n)
  case Nil
  then show ?case by simp
next
  case (Cons x xs)
  obtain u r d where x: "x = (u, r, d)" by (cases x) auto
  let ?c1 = "c\<lparr>working := (working c)\<lparr>uw_new := Some (insert_row n u r d)\<rparr>, in_transaction := True\<rparr>"
  have step: "exec c (InsertUwNew u r d) = Inr ?c1"
    using Cons.prems by (simp add: exec_def)
  have "uw_new (working ?c1) = Some (insert_row n u r d)" "insert_error (insert_row n u r d) = None"
    using Cons.prems by simp_all
  from Cons.IH [OF this] obtain c' where
    "run_stmts ?c1 (map (\<lambda>(u, r, d). InsertUwNew u r d) xs) = Inr c'" "durable c' = durable ?c1"
    "working c' = (working ?c1)\<lparr>uw_new := Some (insert_all (insert_row n u r d) xs)\<rparr>"
    "in_transaction c' = (in_transaction ?c1 \<or> xs \<noteq> [])"
    by blast
  then show ?case using step x by simp
qed

lemma run_tail:
  assumes "user_warnings (working c) = Some t" and "uw_new (working c) = Some n"
  shows "\<exists>c'. run_stmts c [DropUserWarnings, RenameUwNew, Commit] = Inr c'
              \<and> durable c' = (working c)\<lparr>user_warnings := Some n, uw_new := None\<rparr>"
  using assms by (simp add: exec_def)

lemma migration_stmts_oldest:
  assumes "\<not> set [''reason'', ''date''] \<subseteq> set (columns t)"
  shows "migration_stmts t today =
           [CreateUwNew, SelectLegacy] @
           map (\<lambda>(u, r, d). InsertUwNew u r d) (legacy_inserts (rows t) today) @
           [DropUserWarnings, RenameUwNew, Commit]"
  using assms by (simp add: migration_stmts_def legacy_inserts_def map_concat comp_def)

lemma migrate_oldest_result:
  assumes t: "user_warnings db = Some t" and w: "''warnings'' \<in> set (columns t)"
      and u: "''user_id'' \<in> set (columns t)"
      and old: "\<not> set [''reason'', ''date''] \<subseteq> set (columns t)"
      and n0: "create_table_if_not_exists current_columns (uw_new db) = n0"
      and ie: "insert_error n0 = None"
  shows "migrate_user_warnings_table db today =
           Inr (db\<lparr>user_warnings := Some (insert_all n0 (legacy_inserts (rows t) today)),
                   uw_new := None\<rparr>)"
proof -
  let ?db1 = "db\<lparr>uw_new := Some n0\<rparr>"
  let ?c1 = "\<lparr>durable = ?db1, working = ?db1, in_transaction = False\<rparr>"
  let ?xs = "legacy_inserts (rows t) today"
  have pre: "run_stmts (connect db) [CreateUwNew, SelectLegacy] = Inr ?c1"
    using t w u n0 by (simp add: exec_def connect_def)
  have "uw_new (working ?c1) = Some n0" by simp
  from run_inserts [OF this ie, of ?xs] obtain c2 where
    c2: "run_stmts ?c1 (map (\<lambda>(u, r, d). InsertUwNew u r d) ?xs) = Inr c2"
    "working c2 = ?db1\<lparr>uw_new := Some (insert_all n0 ?xs)\<rparr>"
    by auto
  have "user_warnings (working c2) = Some t"
       "uw_new (working c2) = Some (insert_all n0 ?xs)"
    using c2(2) t by simp_all
  from run_tail [OF this] obtain c3 where
    c3: "run_stmts c2 [DropUserWarnings, RenameUwNew, Commit] = Inr c3"
    "durable c3 = (working c2)\<lparr>user_warnings := Some (insert_all n0 ?xs), uw_new := None\<rparr>"
    by blast
  have "run_stmts (connect db) (migration_stmts t today) = Inr c3"
    unfolding migration_stmts_oldest [OF old] run_stmts_append pre using c2(1) c3(1) by simp
  then show ?thesis
    using t w c3(2) c2(2) by (simp add: migrate_user_warnings_table_def)
qed

lemma legacy_inserts_count:
  "length (filter (\<lambda>p. fst p = u) (legacy_inserts rs today))
     = sum_list (map legacy_count (filter (\<lambda>r. user_id r = u) rs))"
  by (induction rs) (auto simp: legacy_inserts_def)

lemma filter_key_distinct:
  "distinct (map f xs) \<Longrightarrow> r \<in> set xs \<Longrightarrow> filter (\<lambda>x. f x = f r) xs = [r]"
proof (induction xs)
  case Nil
  then show ?case by simp
next
  case (Cons a xs)
  show ?case
  proof (cases "a = r")
    case True
    with Cons.prems(1) have "\<forall>x\<in>set xs. f x \<noteq> f r" by (auto simp: image_iff)
    then have "filter (\<lambda>x. f x = f r) xs = []" by (simp add: filter_empty_conv)
    with True show ?thesis by simp
  next
    case False
    with Cons.prems have "r \<in> set xs" "f a \<noteq> f r" by auto
    with Cons show ?thesis by simp
  qed
qed

text \<open>
  C2. For a legacy table with the count column and without the reason/date pair (the
  oldest shape), the scratch table \<open>_uw_new\<close> being either absent or left over with the
  current columns and no rows (as an interrupted earlier attempt leaves it): the
  migration succeeds; the new \<open>user_warnings\<close> has the current columns; every record in
  it carries the fixed reason "Migrated from legacy count" and the run date; each user
  has as many records as the counts of that user's legacy rows add up to (a NULL or
  negative count giving none), so a row (user, count) of a table with one row per user
  gives exactly count records for that user; scores are untouched; and running the
  migration again on the result changes nothing.
\<close>

theorem migrate_oldest_shape:
  assumes t: "user_warnings db = Some t" and w: "''warnings'' \<in> set (columns t)"
      and u: "''user_id'' \<in> set (columns t)"
      and old: "\<not> set [''reason'', ''date''] \<subseteq> set (columns t)"
      and new: "uw_new db = None
                \<or> (\<exists>n. uw_new db = Some n \<and> rows n = [] \<and> columns n = current_columns)"
  shows "\<exists>db' t'. migrate_user_warnings_table db today = Inr db'
           \<and> user_warnings db' = Some t' \<and> uw_new db' = None \<and> user_fp db' = user_fp db
           \<and> columns t' = current_columns
           \<and> (\<forall>r\<in>set (rows t'). reason r = Some migrated_reason \<and> date r = Some today)
           \<and> (\<forall>v. length (filter (\<lambda>r. user_id r = v) (rows t'))
                     = sum_list (map legacy_count (filter (\<lambda>r. user_id r = v) (rows t))))
           \<and> (\<forall>r\<in>set (rows t). \<forall>c. distinct (map user_id (rows t)) \<longrightarrow> warnings r = Some c \<longrightarrow> 0 \<le> c \<longrightarrow>
                 int (length (filter (\<lambda>x. user_id x = user_id r) (rows t'))) = c)
           \<and> migrate_user_warnings_table db' today' = Inr db'"
proof -
  define n0 where "n0 = create_table_if_not_exists current_columns (uw_new db)"
  have n0c: "columns n0 = current_columns" and n0r: "rows n0 = []"
    using new unfolding n0_def by (auto simp: create_table_if_not_exists_def)
  have ie: "insert_error n0 = None"
    by (simp add: insert_error_def n0c current_columns_def)
  let ?xs = "legacy_inserts (rows t) today"
  let ?t' = "insert_all n0 ?xs"
  let ?db' = "db\<lparr>user_warnings := Some ?t', uw_new := None\<rparr>"
  let ?pay = "\<lambda>r. (user_id r, reason r, date r)"
  have res: "migrate_user_warnings_table db today = Inr ?db'"
    by (rule migrate_oldest_result [OF t w u old n0_def [symmetric] ie])
  have cols: "columns ?t' = current_columns" by (simp add: n0c)
  have pay: "map ?pay (rows ?t') = map (\<lambda>(u, r, d). (u, Some r, Some d)) ?xs"
    using insert_all_rows [of n0 ?xs] by (simp add: n0r)
  have all: "\<forall>r\<in>set (rows ?t'). reason r = Some migrated_reason \<and> date r = Some today"
  proof
    fix r assume "r \<in> set (rows ?t')"
    then have "?pay r \<in> set (map ?pay (rows ?t'))" by (simp only: set_map) (rule imageI)
    then have "?pay r \<in> (\<lambda>(u, r, d). (u, Some r, Some d)) ` set ?xs" by (simp add: pay)
    then show "reason r = Some migrated_reason \<and> date r = Some today"
      by (auto simp: legacy_inserts_def)
  qed
  have cnt: "length (filter (\<lambda>r. user_id r = v) (rows ?t'))
               = sum_list (map legacy_count (filter (\<lambda>r. user_id r = v) (rows t)))" for v
  proof -
    have "length (filter (\<lambda>r. user_id r = v) (rows ?t'))
            = length (filter (\<lambda>p. fst p = v) (map ?pay (rows ?t')))"
      by (simp add: filter_map comp_def)
    also have "\<dots> = length (filter (\<lambda>p. fst p = v) ?xs)"
      by (simp add: pay filter_map comp_def case_prod_unfold)
    finally show ?thesis by (simp add: legacy_inserts_count)
  qed
  have one: "int (length (filter (\<lambda>x. user_id x = user_id r) (rows ?t'))) = c"
    if "r \<in> set (rows t)" "distinct (map user_id (rows t))" "warnings r = Some c" "0 \<le> c" for r c
    using that filter_key_distinct [of user_id "rows t" r]
    by (simp add: cnt legacy_count_def coalesce_def)
  have again: "migrate_user_warnings_table ?db' today' = Inr ?db'"
    by (simp add: migrate_user_warnings_table_def n0c current_columns_def)
  show ?thesis
    using res cols all cnt one again
    by (intro exI [of _ ?db'] exI [of _ ?t']) simp
qed

theorem migrate_oldest_shape_witness:
  "user_warnings legacy_db = Some legacy_table
   \<and> migrate_user_warnings_table legacy_db ''2024-01-01'' = Inr migrated_legacy_db
   \<and> migrate_user_warnings_table migrated_legacy_db ''2024-02-02'' = Inr migrated_legacy_db
   \<and> user_warnings interrupted_legacy_db = Some legacy_table
   \<and> uw_new interrupted_legacy_db = Some empty_current_table
   \<and> migrate_user_warnings_table interrupted_legacy_db ''2024-01-01'' = Inr migrated_legacy_db"
proof -
  have h: "user_warnings legacy_db = Some legacy_table" "''warnings'' \<in> set (columns legacy_table)"
    "''user_id'' \<in> set (columns legacy_table)"
    "\<not> set [''reason'', ''date''] \<subseteq> set (columns legacy_table)"
    "uw_new legacy_db = None
       \<or> (\<exists>n. uw_new legacy_db = Some n \<and> rows n = [] \<and> columns n = current_columns)"
    by (simp_all add: legacy_db_def legacy_table_def)
  have run: "migrate_user_warnings_table legacy_db ''2024-01-01'' = Inr migrated_legacy_db"
    by (simp add: migrate_user_warnings_table_def migration_stmts_def legacy_db_def
          legacy_table_def legacy_count_def coalesce_def exec_def connect_def
          create_table_if_not_exists_def insert_error_def insert_row_def next_rowid_def
          current_columns_def migrated_legacy_db_def warning_row_def eval_nat_numeral)
  from migrate_oldest_shape [OF h, of "''2024-01-01''" "''2024-02-02''"] obtain db' where
    "migrate_user_warnings_table legacy_db ''2024-01-01'' = Inr db'"
    "migrate_user_warnings_table db' ''2024-02-02'' = Inr db'"
    by blast
  with run have first: "migrate_user_warnings_table migrated_legacy_db ''2024-02-02'' = Inr migrated_legacy_db"
    by simp
  have k: "user_warnings interrupted_legacy_db = Some legacy_table"
    "uw_new interrupted_legacy_db = Some empty_current_table"
    by (simp_all add: interrupted_legacy_db_def legacy_db_def)
  have k5: "uw_new interrupted_legacy_db = None
       \<or> (\<exists>n. uw_new interrupted_legacy_db = Some n \<and> rows n = [] \<and> columns n = current_columns)"
    by (simp add: k(2) empty_current_table_def)
  have run2: "migrate_user_warnings_table interrupted_legacy_db ''2024-01-01'' = Inr migrated_legacy_db"
    by (simp add: migrate_user_warnings_table_def migration_stmts_def legacy_db_def
          interrupted_legacy_db_def empty_current_table_def
          legacy_table_def legacy_count_def coalesce_def exec_def connect_def
          create_table_if_not_exists_def insert_error_def insert_row_def next_rowid_def
          current_columns_def migrated_legacy_db_def warning_row_def eval_nat_numeral)
  from migrate_oldest_shape [OF k(1) h(2,3,4) k5, of "''2024-01-01''" "''2024-02-02''"] obtain db2 where
    "migrate_user_warnings_table interrupted_legacy_db ''2024-01-01'' = Inr db2" "uw_new db2 = None"
    by blast
  with run run2 first h(1) k show ?thesis by simp
qed

subsection \<open>Schema migrator: transactions\<close>

lemma trace_append:
  "set (trace c (xs @ ys)) =
     set (trace c xs) \<union> (case run_stmts c xs of Inl e \<Rightarrow> {} | Inr c' \<Rightarrow> set (trace c' ys))"
proof (induction xs arbitrary: c)
  case Nil
  show ?case by (cases ys) auto
next
  case (Cons x xs)
  then show ?case by (auto split: sum.splits)
qed

lemma run_in_trace: "run_stmts c ss = Inr c' \<Longrightarrow> c' \<in> set (trace c ss)"
  by (induction ss arbitrary: c) (auto split: sum.splits)

lemma exec_dml:
  "is_dml s \<Longrightarrow> exec c s = Inr c' \<Longrightarrow> durable c' = durable c \<and> in_transaction c'"
  by (cases s) (auto simp: exec_def split: sum.splits)

lemma exec_in_transaction:
  "in_transaction c \<Longrightarrow> s \<noteq> Commit \<Longrightarrow> exec c s = Inr c'
     \<Longrightarrow> durable c' = durable c \<and> in_transaction c'"
  by (auto simp: exec_def split: sum.splits if_splits)

lemma trace_Cons_cases:
  "c' \<in> set (trace c (s # ss)) \<Longrightarrow> c' = c \<or> (\<exists>c1. exec c s = Inr c1 \<and> c' \<in> set (trace c1 ss))"
  by (cases "exec c s") auto

lemma trace_in_transaction:
  "in_transaction c \<Longrightarrow> Commit \<notin> set ss \<Longrightarrow> c' \<in> set (trace c ss)
     \<Longrightarrow> durable c' = durable c \<and> in_transaction c'"
proof (induction ss arbitrary: c)
  case Nil
  then show ?case by simp
next
  case (Cons s ss)
  show ?case
  proof (cases "c' = c")
    case True
    with Cons.prems show ?thesis by simp
  next
    case False
    with trace_Cons_cases [OF Cons.prems(3)]
    obtain c1 where c1: "exec c s = Inr c1" "c' \<in> set (trace c1 ss)" by blast
    from exec_in_transaction [OF Cons.prems(1) _ c1(1)] Cons.prems(2)
    have "durable c1 = durable c" "in_transaction c1" by auto
    with Cons.IH [OF _ _ c1(2)] Cons.prems(2) show ?thesis by simp
  qed
qed

lemma one_transaction:
  assumes pre: "\<forall>c\<in>set (trace c0 pre). user_warnings (durable c) = orig"
      and d: "is_dml d" and post: "Commit \<notin> set post"
      and c: "c \<in> set (trace c0 (pre @ d # post @ [Commit]))"
  shows "user_warnings (durable c) = orig \<or> run_stmts c0 (pre @ d # post @ [Commit]) = Inr c"
proof -
  let ?body = "pre @ d # post"
  have body: "user_warnings (durable x) = orig" if x: "x \<in> set (trace c0 ?body)" for x
  proof (cases "x \<in> set (trace c0 pre)")
    case True
    with pre show ?thesis by blast
  next
    case False
    have "set (trace c0 (pre @ d # post)) =
            set (trace c0 pre) \<union>
            (case run_stmts c0 pre of Inl e \<Rightarrow> {} | Inr c' \<Rightarrow> set (trace c' (d # post)))"
      by (rule trace_append)
    with x False have "x \<in> (case run_stmts c0 pre of Inl e \<Rightarrow> {} | Inr c' \<Rightarrow> set (trace c' (d # post)))"
      by blast
    then obtain c1 where c1: "run_stmts c0 pre = Inr c1" "x \<in> set (trace c1 (d # post))"
      by (cases "run_stmts c0 pre") auto
    have p1: "user_warnings (durable c1) = orig" using pre run_in_trace [OF c1(1)] by blast
    show ?thesis
    proof (cases "x = c1")
      case True
      with p1 show ?thesis by simp
    next
      case False
      with trace_Cons_cases [OF c1(2)]
      obtain c2 where c2: "exec c1 d = Inr c2" "x \<in> set (trace c2 post)" by blast
      from exec_dml [OF d c2(1)] have "durable c2 = durable c1" "in_transaction c2" by auto
      with trace_in_transaction [OF _ post c2(2)] p1 show ?thesis by simp
    qed
  qed
  have whole: "pre @ d # post @ [Commit] = ?body @ [Commit]" by simp
  show ?thesis
  proof (cases "c \<in> set (trace c0 ?body)")
    case True
    with body show ?thesis by blast
  next
    case False
    have "set (trace c0 (?body @ [Commit])) =
            set (trace c0 ?body) \<union>
            (case run_stmts c0 ?body of Inl e \<Rightarrow> {} | Inr c' \<Rightarrow> set (trace c' [Commit]))"
      by (rule trace_append)
    with c False have "c \<in> (case run_stmts c0 ?body of Inl e \<Rightarrow> {} | Inr c' \<Rightarrow> set (trace c' [Commit]))"
      unfolding whole by blast
    then obtain c' where c': "run_stmts c0 ?body = Inr c'" "c \<in> set (trace c' [Commit])"
      by (cases "run_stmts c0 ?body") auto
    have "c' \<in> set (trace c0 ?body)" by (rule run_in_trace [OF c'(1)])
    with False trace_Cons_cases [OF c'(2)] have "exec c' Commit = Inr c" by auto
    moreover have "run_stmts c0 (?body @ [Commit]) =
                     (case run_stmts c0 ?body of Inl e \<Rightarrow> Inl e | Inr x \<Rightarrow> run_stmts x [Commit])"
      by (rule run_stmts_append)
    ultimately have "run_stmts c0 (?body @ [Commit]) = Inr c"
      using c'(1) by simp
    then show ?thesis unfolding whole by blast
  qed
qed

lemma trace_create:
  "c \<in> set (trace (connect db) [CreateUwNew]) \<Longrightarrow> user_warnings (durable c) = user_warnings db"
  by (auto simp: exec_def connect_def)

lemma trace_create_select:
  "c \<in> set (trace (connect db) [CreateUwNew, SelectLegacy])
     \<Longrightarrow> user_warnings (durable c) = user_warnings db"
  by (auto simp: exec_def connect_def split: option.splits if_splits)

lemma positive_count_inserts:
  assumes "\<exists>r\<in>set rs. 0 < legacy_count r"
  shows "\<exists>i rest. concat (map (\<lambda>r. replicate (legacy_count r) (InsertUwNew (user_id r) m d)) rs) = i # rest
           \<and> is_dml i \<and> Commit \<notin> set rest"
proof -
  let ?xs = "concat (map (\<lambda>r. replicate (legacy_count r) (InsertUwNew (user_id r) m d)) rs)"
  have all: "\<forall>s\<in>set ?xs. is_dml s \<and> s \<noteq> Commit" by auto
  from assms have "?xs \<noteq> []" by auto
  then obtain i rest where "?xs = i # rest" by (cases ?xs) auto
  with all show ?thesis by (metis list.set_intros(1) list.set_intros(2))
qed

text \<open>
  C1 as stated: a stop partway leaves the original \<open>user_warnings\<close> untouched. For a
  legacy table whose only count is 0 the migration sends no \<open>INSERT\<close>, so no transaction
  is open when \<open>DROP TABLE\<close> runs and the drop is committed by itself: after the third
  statement the file has no \<open>user_warnings\<close> table at all.
\<close>

theorem migration_crash_drops_table:
  "user_warnings zero_legacy_db = Some zero_legacy_table
   \<and> user_warnings (durable (trace (connect zero_legacy_db)
                               (migration_stmts zero_legacy_table ''2024-01-01'') ! 3)) = None"
  by (simp add: migration_stmts_def zero_legacy_db_def zero_legacy_table_def legacy_count_def
        coalesce_def exec_def connect_def create_table_if_not_exists_def eval_nat_numeral)

text \<open>
  C1, amended. The source opens no transaction itself; the replacement table is created
  before any transaction exists. When the migration sends at least one \<open>INSERT\<close> (the
  mixed shape, or some row with a positive count), the driver's transaction opened by
  the first \<open>INSERT\<close> holds every later insert, the \<open>DROP\<close> and the \<open>RENAME\<close> until the
  one \<open>commit()\<close>: at every point at which the run can stop or fail, the file's
  \<open>user_warnings\<close> is the untouched original, unless the run has completed, and then the
  file is the migration's result.
\<close>

theorem migration_one_transaction:
  assumes t: "user_warnings db = Some t" and w: "''warnings'' \<in> set (columns t)"
      and ins: "set [''reason'', ''date''] \<subseteq> set (columns t) \<or> (\<exists>r\<in>set (rows t). 0 < legacy_count r)"
  shows "\<forall>c\<in>set (trace (connect db) (migration_stmts t today)).
           user_warnings (durable c) = Some t
           \<or> (run_stmts (connect db) (migration_stmts t today) = Inr c
              \<and> migrate_user_warnings_table db today = Inr (durable c))"
proof
  fix c assume c: "c \<in> set (trace (connect db) (migration_stmts t today))"
  have fin: "migrate_user_warnings_table db today = Inr (durable x)"
    if "run_stmts (connect db) (migration_stmts t today) = Inr x" for x
    using that t w by (simp add: migrate_user_warnings_table_def)
  show "user_warnings (durable c) = Some t
          \<or> (run_stmts (connect db) (migration_stmts t today) = Inr c
              \<and> migrate_user_warnings_table db today = Inr (durable c))"
  proof (cases "set [''reason'', ''date''] \<subseteq> set (columns t)")
    case True
    then have s: "migration_stmts t today =
                    [CreateUwNew] @ InsertSelect today # [DropUserWarnings, RenameUwNew] @ [Commit]"
      by (simp add: migration_stmts_def)
    have "\<forall>x\<in>set (trace (connect db) [CreateUwNew]). user_warnings (durable x) = Some t"
      using trace_create t by metis
    from one_transaction [OF this, of "InsertSelect today" "[DropUserWarnings, RenameUwNew]" c]
    show ?thesis using c fin unfolding s by auto
  next
    case False
    with ins have "\<exists>r\<in>set (rows t). 0 < legacy_count r" by blast
    from positive_count_inserts [OF this, of migrated_reason today] obtain i rest where
      ir: "concat (map (\<lambda>r. replicate (legacy_count r) (InsertUwNew (user_id r) migrated_reason today)) (rows t))
             = i # rest" "is_dml i" "Commit \<notin> set rest"
      by blast
    have s: "migration_stmts t today =
               [CreateUwNew, SelectLegacy] @ i # (rest @ [DropUserWarnings, RenameUwNew]) @ [Commit]"
      using False ir(1) by (simp add: migration_stmts_def)
    have "\<forall>x\<in>set (trace (connect db) [CreateUwNew, SelectLegacy]). user_warnings (durable x) = Some t"
      using trace_create_select t by metis
    moreover have "Commit \<notin> set (rest @ [DropUserWarnings, RenameUwNew])" using ir(3) by simp
    ultimately show ?thesis
      using one_transaction [of "connect db" "[CreateUwNew, SelectLegacy]" "Some t" i
                               "rest @ [DropUserWarnings, RenameUwNew]" c] ir(2) c fin
      unfolding s by auto
  qed
qed


lemma legacy_trace_length:
  "length (trace (connect legacy_db) (migration_stmts legacy_table ''2024-01-01'')) = 9"
  by (simp add: migration_stmts_def legacy_db_def legacy_table_def legacy_count_def
        coalesce_def exec_def connect_def create_table_if_not_exists_def insert_error_def
        insert_row_def next_rowid_def current_columns_def eval_nat_numeral)

theorem migration_one_transaction_witness:
  "user_warnings legacy_db = Some legacy_table
   \<and> user_warnings (durable (trace (connect legacy_db)
                               (migration_stmts legacy_table ''2024-01-01'') ! 7)) = Some legacy_table
   \<and> migrate_user_warnings_table legacy_db ''2024-01-01''
       = Inr (durable (trace (connect legacy_db) (migration_stmts legacy_table ''2024-01-01'') ! 8))"
proof -
  let ?tr = "trace (connect legacy_db) (migration_stmts legacy_table ''2024-01-01'')"
  have h: "user_warnings legacy_db = Some legacy_table" "''warnings'' \<in> set (columns legacy_table)"
    "set [''reason'', ''date''] \<subseteq> set (columns legacy_table)
       \<or> (\<exists>r\<in>set (rows legacy_table). 0 < legacy_count r)"
    by (simp_all add: legacy_db_def legacy_table_def legacy_count_def coalesce_def)
  have mem: "?tr ! 7 \<in> set ?tr" "?tr ! 8 \<in> set ?tr"
    by (simp_all add: legacy_trace_length)
  have not_done: "user_warnings (durable (?tr ! 8)) \<noteq> Some legacy_table"
    "in_transaction (?tr ! 7)"
    by (simp_all add: migration_stmts_def legacy_db_def legacy_table_def legacy_count_def
        coalesce_def exec_def connect_def create_table_if_not_exists_def insert_error_def
        insert_row_def next_rowid_def current_columns_def eval_nat_numeral)
  from migration_one_transaction [OF h, of "''2024-01-01''"] mem
  have "user_warnings (durable (?tr ! 8)) = Some legacy_table
          \<or> migrate_user_warnings_table legacy_db ''2024-01-01'' = Inr (durable (?tr ! 8))"
       "user_warnings (durable (?tr ! 7)) = Some legacy_table
          \<or> run_stmts (connect legacy_db) (migration_stmts legacy_table ''2024-01-01'') = Inr (?tr ! 7)"
    by blast+
  moreover have "run_stmts (connect legacy_db) (migration_stmts legacy_table ''2024-01-01'') \<noteq> Inr (?tr ! 7)"
  proof
    assume "run_stmts (connect legacy_db) (migration_stmts legacy_table ''2024-01-01'') = Inr (?tr ! 7)"
    moreover have "\<exists>c. run_stmts (connect legacy_db) (migration_stmts legacy_table ''2024-01-01'') = Inr c
                     \<and> \<not> in_transaction c"
      by (simp add: migration_stmts_def legacy_db_def legacy_table_def legacy_count_def
        coalesce_def exec_def connect_def create_table_if_not_exists_def insert_error_def
        insert_row_def next_rowid_def current_columns_def eval_nat_numeral)
    ultimately show False using not_done(2) by auto
  qed
  ultimately show ?thesis using h(1) not_done(1) by blast
qed

subsection \<open>Role synchronizer\<close>

lemma sync_shape:
  "sync_member_fp_role api gr m n =
     (let req = remove_outcome api (member_id m);
          rtr = filter is_fp_role (roles m);
          kept = filter (\<lambda>r. r \<notin> set (takeWhile (\<lambda>r. req r = Done) rtr)) (roles m);
          out1 = (case dropWhile (\<lambda>r. req r = Done) rtr of [] \<Rightarrow> Done | r # _ \<Rightarrow> req r)
      in if out1 = Failed then (m\<lparr>roles := kept\<rparr>, Inl HTTPException)
         else
           (case find (\<lambda>r. name r = fp_role_name n) gr of
              None \<Rightarrow> (m\<lparr>roles := kept\<rparr>, Inr False)
            | Some tr \<Rightarrow>
                (case add_outcome api (member_id m) tr of
                   Done \<Rightarrow> (m\<lparr>roles := (if tr \<in> set kept then kept else kept @ [tr])\<rparr>, Inr True)
                 | Forbidden \<Rightarrow> (m\<lparr>roles := kept\<rparr>, Inr True)
                 | Failed \<Rightarrow> (m\<lparr>roles := kept\<rparr>, Inl HTTPException))))"
proof (cases "filter is_fp_role (roles m) = []")
  case True
  then show ?thesis
    by (simp add: sync_member_fp_role_def Let_def split: option.splits outcome.splits)
next
  case False
  then show ?thesis
    by (simp add: sync_member_fp_role_def Let_def remove_roles_shape
          split: option.splits outcome.splits)
qed

lemma dropWhile_outcome:
  "(case dropWhile (\<lambda>r. req r = Done) rs of [] \<Rightarrow> Done | r # _ \<Rightarrow> req r) = Failed
     \<Longrightarrow> \<exists>r\<in>set rs. req r = Failed"
  by (induction rs) (auto split: if_splits)


lemma find_Some_name: "find (\<lambda>r. name r = s) gr = Some x \<Longrightarrow> x \<in> set gr \<and> name x = s"
  by (auto simp: find_Some_iff)

lemma sync_cases:
  assumes "req = remove_outcome api (member_id m)"
      and "rtr = filter is_fp_role (roles m)"
      and "kept = filter (\<lambda>r. r \<notin> set (takeWhile (\<lambda>r. req r = Done) rtr)) (roles m)"
      and "out1 = (case dropWhile (\<lambda>r. req r = Done) rtr of [] \<Rightarrow> Done | r # _ \<Rightarrow> req r)"
      and "target = find (\<lambda>r. name r = fp_role_name n) gr"
  shows "out1 = Failed \<Longrightarrow>
           sync_member_fp_role api gr m n = (m\<lparr>roles := kept\<rparr>, Inl HTTPException)"
    and "out1 \<noteq> Failed \<Longrightarrow> target = None \<Longrightarrow>
           sync_member_fp_role api gr m n = (m\<lparr>roles := kept\<rparr>, Inr False)"
    and "out1 \<noteq> Failed \<Longrightarrow> target = Some tr \<Longrightarrow> add_outcome api (member_id m) tr = Done \<Longrightarrow>
           sync_member_fp_role api gr m n =
             (m\<lparr>roles := (if tr \<in> set kept then kept else kept @ [tr])\<rparr>, Inr True)"
    and "out1 \<noteq> Failed \<Longrightarrow> target = Some tr \<Longrightarrow> add_outcome api (member_id m) tr = Forbidden \<Longrightarrow>
           sync_member_fp_role api gr m n = (m\<lparr>roles := kept\<rparr>, Inr True)"
    and "out1 \<noteq> Failed \<Longrightarrow> target = Some tr \<Longrightarrow> add_outcome api (member_id m) tr = Failed \<Longrightarrow>
           sync_member_fp_role api gr m n = (m\<lparr>roles := kept\<rparr>, Inl HTTPException)"
  unfolding sync_shape Let_def assms
  by simp_all



lemma fp_role_name_12: "fp_role_name 12 = ''12 FP''"
  by code_simp

lemma is_fp_role_examples:
  "is_fp_role (label 7 ''7 FP'')" "is_fp_role (label 8 ''8 FP'')" "is_fp_role (label 9 ''9 FP'')"
  "is_fp_role (label 12 ''12 FP'')" "\<not> is_fp_role (label 2 ''Moderator'')"
  by code_simp+



lemma sync_held:
  fixes api gr m n
  defines "kept \<equiv> filter (\<lambda>r. r \<notin> set (takeWhile (\<lambda>r. remove_outcome api (member_id m) r = Done)
                                            (filter is_fp_role (roles m)))) (roles m)"
  shows "set (roles (fst (sync_member_fp_role api gr m n))) = set kept
         \<or> (\<exists>tr. find (\<lambda>r. name r = fp_role_name n) gr = Some tr
                  \<and> set (roles (fst (sync_member_fp_role api gr m n))) = insert tr (set kept))"
proof -
  define req where "req = remove_outcome api (member_id m)"
  define rtr where "rtr = filter is_fp_role (roles m)"
  define out1 where "out1 = (case dropWhile (\<lambda>r. req r = Done) rtr of [] \<Rightarrow> Done | r # _ \<Rightarrow> req r)"
  define target where "target = find (\<lambda>r. name r = fp_role_name n) gr"
  have k: "kept = filter (\<lambda>r. r \<notin> set (takeWhile (\<lambda>r. req r = Done) rtr)) (roles m)"
    unfolding kept_def req_def rtr_def ..
  note cs = sync_cases [OF req_def rtr_def k out1_def target_def]
  show ?thesis
  proof (cases "out1 = Failed")
    case True
    from cs(1) [OF True] show ?thesis by simp
  next
    case nf: False
    show ?thesis
    proof (cases target)
      case None
      from cs(2) [OF nf None] show ?thesis by simp
    next
      case (Some tr)
      show ?thesis
      proof (cases "add_outcome api (member_id m) tr")
        case Done
        from cs(3) [OF nf Some Done] Some show ?thesis unfolding target_def by auto
      next
        case Forbidden
        from cs(4) [OF nf Some Forbidden] show ?thesis by simp
      next
        case Failed
        from cs(5) [OF nf Some Failed] show ?thesis by simp
      qed
    qed
  qed
qed

lemma sync_returned:
  assumes "(case dropWhile (\<lambda>r. remove_outcome api (member_id m) r = Done) (filter is_fp_role (roles m)) of
              [] \<Rightarrow> Done | r # _ \<Rightarrow> remove_outcome api (member_id m) r) \<noteq> Failed"
  shows "snd (sync_member_fp_role api gr m n) =
           (case find (\<lambda>r. name r = fp_role_name n) gr of
              None \<Rightarrow> Inr False
            | Some tr \<Rightarrow>
                (case add_outcome api (member_id m) tr of
                   Done \<Rightarrow> Inr True | Forbidden \<Rightarrow> Inr True | Failed \<Rightarrow> Inl HTTPException))"
  using assms unfolding sync_shape Let_def
  by (simp split: option.splits outcome.splits)

text \<open>
  C6 as stated: after a refused removal, removal continues with the rest of the matched
  labels. The source makes one \<open>remove_roles\<close> call for all matched labels inside one
  \<open>try\<close>; the refusal of "7 FP" ends that call, and "9 FP", whose removal the system
  would allow, is still held after sync.
\<close>

theorem sync_stops_removing_at_refusal:
  "sync_member_fp_role api_refuse_7 [label 12 ''12 FP''] (holder [label 7 ''7 FP'', label 9 ''9 FP'']) 12
     = (holder [label 7 ''7 FP'', label 9 ''9 FP'', label 12 ''12 FP''], Inr True)
   \<and> is_fp_role (label 9 ''9 FP'')
   \<and> remove_outcome api_refuse_7 (member_id (holder [label 7 ''7 FP'', label 9 ''9 FP''])) (label 9 ''9 FP'') = Done"
  by (simp add: sync_member_fp_role_def is_fp_role_examples fp_role_name_12 api_refuse_7_def
        holder_def) (simp add: label_def)

text \<open>
  C6, amended. When the external system only refuses removals (no removal fails
  otherwise), sync returns exactly what it returns when nothing is refused: the refusal
  is passed over, never reported and never changes the result. The matched labels before
  the first refused one are removed (one of them is held afterwards only if it is the
  target role, attached again); the refused label, the matched labels after it and every
  other label stay.
\<close>

theorem sync_removal_refused:
  assumes "\<forall>r\<in>set (roles m). remove_outcome api (member_id m) r \<noteq> Failed"
  shows "snd (sync_member_fp_role api gr m n)
           = snd (sync_member_fp_role (api\<lparr>remove_outcome := (\<lambda>uid r. Done)\<rparr>) gr m n)
       \<and> (\<forall>r\<in>set (takeWhile (\<lambda>r. remove_outcome api (member_id m) r = Done)
                        (filter is_fp_role (roles m))).
             r \<in> set (roles (fst (sync_member_fp_role api gr m n)))
               \<longrightarrow> find (\<lambda>r. name r = fp_role_name n) gr = Some r)
       \<and> (\<forall>r\<in>set (roles m).
             r \<notin> set (takeWhile (\<lambda>r. remove_outcome api (member_id m) r = Done)
                         (filter is_fp_role (roles m)))
               \<longrightarrow> r \<in> set (roles (fst (sync_member_fp_role api gr m n))))"
proof -
  let ?req = "remove_outcome api (member_id m)"
  let ?rtr = "filter is_fp_role (roles m)"
  let ?gone = "takeWhile (\<lambda>r. ?req r = Done) ?rtr"
  let ?api' = "api\<lparr>remove_outcome := (\<lambda>uid r. Done)\<rparr>"
  have "(case dropWhile (\<lambda>r. ?req r = Done) ?rtr of [] \<Rightarrow> Done | r # _ \<Rightarrow> ?req r) \<noteq> Failed"
    using assms dropWhile_outcome [of ?req ?rtr] by auto
  from sync_returned [OF this, of gr n]
  have a: "snd (sync_member_fp_role api gr m n) =
           (case find (\<lambda>r. name r = fp_role_name n) gr of
              None \<Rightarrow> Inr False
            | Some tr \<Rightarrow>
                (case add_outcome api (member_id m) tr of
                   Done \<Rightarrow> Inr True | Forbidden \<Rightarrow> Inr True | Failed \<Rightarrow> Inl HTTPException))" .
  have "(case dropWhile (\<lambda>r. remove_outcome ?api' (member_id m) r = Done) ?rtr of
           [] \<Rightarrow> Done | r # _ \<Rightarrow> remove_outcome ?api' (member_id m) r) \<noteq> Failed"
    using dropWhile_outcome [of "remove_outcome ?api' (member_id m)" ?rtr] by auto
  from sync_returned [OF this, of gr n]
  have b0: "snd (sync_member_fp_role ?api' gr m n) =
           (case find (\<lambda>r. name r = fp_role_name n) gr of
              None \<Rightarrow> Inr False
            | Some tr \<Rightarrow>
                (case add_outcome ?api' (member_id m) tr of
                   Done \<Rightarrow> Inr True | Forbidden \<Rightarrow> Inr True | Failed \<Rightarrow> Inl HTTPException))" .
  have ao: "add_outcome ?api' = add_outcome api" by simp
  have b: "snd (sync_member_fp_role ?api' gr m n) =
           (case find (\<lambda>r. name r = fp_role_name n) gr of
              None \<Rightarrow> Inr False
            | Some tr \<Rightarrow>
                (case add_outcome api (member_id m) tr of
                   Done \<Rightarrow> Inr True | Forbidden \<Rightarrow> Inr True | Failed \<Rightarrow> Inl HTTPException))"
    using b0 unfolding ao .
  note h = sync_held [of api gr m n]
  have c: "\<forall>r\<in>set ?gone. r \<in> set (roles (fst (sync_member_fp_role api gr m n)))
               \<longrightarrow> find (\<lambda>r. name r = fp_role_name n) gr = Some r"
    using h by auto
  have d: "\<forall>r\<in>set (roles m). r \<notin> set ?gone
               \<longrightarrow> r \<in> set (roles (fst (sync_member_fp_role api gr m n)))"
    using h by auto
  show ?thesis using a b c d by simp
qed

theorem sync_removal_refused_witness:
  "sync_member_fp_role api_refuse_7 [label 12 ''12 FP'']
       (holder [label 9 ''9 FP'', label 7 ''7 FP'', label 8 ''8 FP'']) 12
     = (holder [label 7 ''7 FP'', label 8 ''8 FP'', label 12 ''12 FP''], Inr True)
   \<and> snd (sync_member_fp_role (api_refuse_7\<lparr>remove_outcome := (\<lambda>uid r. Done)\<rparr>) [label 12 ''12 FP'']
            (holder [label 9 ''9 FP'', label 7 ''7 FP'', label 8 ''8 FP'']) 12) = Inr True"
proof -
  let ?gr = "[label 12 ''12 FP'']"
  let ?m = "holder [label 9 ''9 FP'', label 7 ''7 FP'', label 8 ''8 FP'']"
  have ev: "sync_member_fp_role api_refuse_7 ?gr ?m 12
              = (holder [label 7 ''7 FP'', label 8 ''8 FP'', label 12 ''12 FP''], Inr True)"
    by (simp add: sync_member_fp_role_def is_fp_role_examples fp_role_name_12 api_refuse_7_def
          holder_def) (simp add: label_def)
  have "\<forall>r\<in>set (roles ?m). remove_outcome api_refuse_7 (member_id ?m) r \<noteq> Failed"
    by (simp add: api_refuse_7_def)
  from sync_removal_refused [OF this, of ?gr 12]
  have "snd (sync_member_fp_role api_refuse_7 ?gr ?m 12)
          = snd (sync_member_fp_role (api_refuse_7\<lparr>remove_outcome := (\<lambda>uid r. Done)\<rparr>) ?gr ?m 12)"
    by blast
  with ev show ?thesis by simp
qed

subsection \<open>Bulk adjustment\<close>

lemma apply_delta_frame:
  "apply_delta db uid d = Inr (db', new) \<Longrightarrow> user_fp db' = (user_fp db)(uid \<mapsto> new)"
  by (auto simp: apply_delta_def set_fp_def Let_def split: if_splits)

lemma fpall_loop_bot:
  "is_bot m \<Longrightarrow>
     fpall_loop api gr delta (m # ms) (db, seen, t)
       = fpall_loop api gr delta ms (db, seen @ [m], t\<lparr>skipped_bots := skipped_bots t + 1\<rparr>)"
  by simp

lemma fpall_loop_member:
  assumes "\<not> is_bot m"
  shows "\<exists>db1 m1 t1.
           fpall_loop api gr delta (m # ms) (db, seen, t)
             = fpall_loop api gr delta ms (db1, seen @ [m1], t1)
           \<and> \<not> is_bot m1
           \<and> (\<forall>uid. uid \<noteq> member_id m \<longrightarrow> user_fp db1 uid = user_fp db uid)
           \<and> skipped_bots t1 = skipped_bots t
           \<and> updated t1 \<le> updated t + 1"
proof (cases "apply_delta db (member_id m) delta")
  case (Inl e)
  with assms have "fpall_loop api gr delta (m # ms) (db, seen, t)
                     = fpall_loop api gr delta ms (db, seen @ [m], t)" by simp
  with assms show ?thesis by fastforce
next
  case (Inr p)
  obtain db1 new where p: "p = (db1, new)" by (cases p) auto
  have fr: "\<forall>uid. uid \<noteq> member_id m \<longrightarrow> user_fp db1 uid = user_fp db uid"
    using apply_delta_frame [OF Inr [unfolded p]] by simp
  obtain m' r where s: "sync_member_fp_role api gr m new = (m', r)"
    by (cases "sync_member_fp_role api gr m new") auto
  have mb: "\<not> is_bot m'" using sync_is_bot_pair [OF s] assms by simp
  show ?thesis
  proof (cases r)
    case (Inl e)
    with assms Inr p s have "fpall_loop api gr delta (m # ms) (db, seen, t)
                     = fpall_loop api gr delta ms (db1, seen @ [m'], t)" by simp
    with mb fr show ?thesis by fastforce
  next
    case (Inr existed)
    let ?t1 = "t\<lparr>failed_syncs := (if existed then failed_syncs t else failed_syncs t + 1),
                 updated := updated t + 1\<rparr>"
    from assms \<open>apply_delta db (member_id m) delta = Inr p\<close> p s Inr
    have "fpall_loop api gr delta (m # ms) (db, seen, t)
            = fpall_loop api gr delta ms (db1, seen @ [m'], ?t1)" by simp
    moreover have "skipped_bots ?t1 = skipped_bots t" "updated ?t1 \<le> updated t + 1" by simp_all
    ultimately show ?thesis using mb fr by blast
  qed
qed

lemma fpall_loop_members:
  assumes "fpall_loop api gr delta ms (db, seen, t) = (db', out, t')"
  shows "\<exists>new. out = seen @ new \<and> list_all2 (\<lambda>m m'. is_bot m \<longrightarrow> m' = m) ms new"
  using assms
proof (induction ms arbitrary: db seen t)
  case Nil
  then show ?case by simp
next
  case (Cons m ms)
  show ?case
  proof (cases "is_bot m")
    case True
    from Cons.prems have
      "fpall_loop api gr delta ms (db, seen @ [m], t\<lparr>skipped_bots := skipped_bots t + 1\<rparr>) = (db', out, t')"
      unfolding fpall_loop_bot [OF True] .
    from Cons.IH [OF this] obtain new where
      "out = (seen @ [m]) @ new" "list_all2 (\<lambda>m m'. is_bot m \<longrightarrow> m' = m) ms new" by blast
    then have "out = seen @ (m # new) \<and> list_all2 (\<lambda>m m'. is_bot m \<longrightarrow> m' = m) (m # ms) (m # new)"
      by simp
    then show ?thesis by blast
  next
    case False
    from fpall_loop_member [OF False, of api gr delta ms db seen t] obtain db1 m1 t1 where
      st: "fpall_loop api gr delta (m # ms) (db, seen, t) = fpall_loop api gr delta ms (db1, seen @ [m1], t1)"
      by blast
    from Cons.prems have "fpall_loop api gr delta ms (db1, seen @ [m1], t1) = (db', out, t')"
      unfolding st .
    from Cons.IH [OF this] obtain new where
      "out = (seen @ [m1]) @ new" "list_all2 (\<lambda>m m'. is_bot m \<longrightarrow> m' = m) ms new" by blast
    with False have "out = seen @ (m1 # new) \<and> list_all2 (\<lambda>m m'. is_bot m \<longrightarrow> m' = m) (m # ms) (m1 # new)"
      by simp
    then show ?thesis by blast
  qed
qed

lemma fpall_loop_frame:
  assumes "fpall_loop api gr delta ms (db, seen, t) = (db', out, t')"
      and "\<forall>m\<in>set ms. \<not> is_bot m \<longrightarrow> member_id m \<noteq> uid"
  shows "user_fp db' uid = user_fp db uid"
  using assms
proof (induction ms arbitrary: db seen t)
  case Nil
  then show ?case by simp
next
  case (Cons m ms)
  from Cons.prems(2) have rest: "\<forall>m\<in>set ms. \<not> is_bot m \<longrightarrow> member_id m \<noteq> uid" by simp
  show ?case
  proof (cases "is_bot m")
    case True
    from Cons.prems(1) have
      "fpall_loop api gr delta ms (db, seen @ [m], t\<lparr>skipped_bots := skipped_bots t + 1\<rparr>) = (db', out, t')"
      unfolding fpall_loop_bot [OF True] .
    from Cons.IH [OF this rest] show ?thesis .
  next
    case False
    from fpall_loop_member [OF False, of api gr delta ms db seen t] obtain db1 m1 t1 where
      st: "fpall_loop api gr delta (m # ms) (db, seen, t) = fpall_loop api gr delta ms (db1, seen @ [m1], t1)"
      and fr: "\<forall>uid. uid \<noteq> member_id m \<longrightarrow> user_fp db1 uid = user_fp db uid"
      by blast
    from Cons.prems(1) have "fpall_loop api gr delta ms (db1, seen @ [m1], t1) = (db', out, t')"
      unfolding st .
    from Cons.IH [OF this rest] have "user_fp db' uid = user_fp db1 uid" .
    moreover from Cons.prems(2) False have "uid \<noteq> member_id m" by auto
    ultimately show ?thesis using fr by simp
  qed
qed

lemma fpall_loop_counts:
  assumes "fpall_loop api gr delta ms (db, seen, t) = (db', out, t')"
  shows "updated t' \<le> updated t + length (filter (\<lambda>m. \<not> is_bot m) ms)
       \<and> skipped_bots t' = skipped_bots t + length (filter is_bot ms)"
  using assms
proof (induction ms arbitrary: db seen t)
  case Nil
  then show ?case by simp
next
  case (Cons m ms)
  show ?case
  proof (cases "is_bot m")
    case True
    from Cons.prems(1) have
      "fpall_loop api gr delta ms (db, seen @ [m], t\<lparr>skipped_bots := skipped_bots t + 1\<rparr>) = (db', out, t')"
      unfolding fpall_loop_bot [OF True] .
    from Cons.IH [OF this] True show ?thesis by simp
  next
    case False
    from fpall_loop_member [OF False, of api gr delta ms db seen t] obtain db1 m1 t1 where
      st: "fpall_loop api gr delta (m # ms) (db, seen, t) = fpall_loop api gr delta ms (db1, seen @ [m1], t1)"
      and c: "skipped_bots t1 = skipped_bots t" "updated t1 \<le> updated t + 1"
      by blast
    from Cons.prems(1) have "fpall_loop api gr delta ms (db1, seen @ [m1], t1) = (db', out, t')"
      unfolding st .
    from Cons.IH [OF this] False c show ?thesis by simp
  qed
qed


lemma tally_skip_swap:
  "(t\<lparr>failed_syncs := a, updated := b\<rparr>)\<lparr>skipped_bots := k\<rparr>
     = (t\<lparr>skipped_bots := k\<rparr>)\<lparr>failed_syncs := a, updated := b\<rparr>"
  by (cases t) simp

lemma fpall_loop_without_bots:
  assumes "fpall_loop api gr delta ms (db, seen, t) = (db', out, t')"
  shows "fpall_loop api gr delta (filter (\<lambda>m. \<not> is_bot m) ms)
           (db, filter (\<lambda>m. \<not> is_bot m) seen, t\<lparr>skipped_bots := k\<rparr>)
         = (db', filter (\<lambda>m. \<not> is_bot m) out, t'\<lparr>skipped_bots := k\<rparr>)"
  using assms
proof (induction ms arbitrary: db seen t)
  case Nil
  then show ?case by simp
next
  case (Cons m ms)
  show ?case
  proof (cases "is_bot m")
    case True
    from Cons.prems have
      "fpall_loop api gr delta ms (db, seen @ [m], t\<lparr>skipped_bots := skipped_bots t + 1\<rparr>) = (db', out, t')"
      unfolding fpall_loop_bot [OF True] .
    from Cons.IH [OF this] True show ?thesis by simp
  next
    case nb: False
    show ?thesis
    proof (cases "apply_delta db (member_id m) delta")
      case (Inl e)
      with nb Cons.prems have "fpall_loop api gr delta ms (db, seen @ [m], t) = (db', out, t')"
        by simp
      from Cons.IH [OF this] nb Inl show ?thesis by simp
    next
      case (Inr p)
      obtain db1 new where p: "p = (db1, new)" by (cases p) auto
      note ad = Inr [unfolded p]
      obtain m' r where s: "sync_member_fp_role api gr m new = (m', r)"
        by (cases "sync_member_fp_role api gr m new") auto
      have mb: "\<not> is_bot m'" using sync_is_bot_pair [OF s] nb by simp
      show ?thesis
      proof (cases r)
        case (Inl e)
        with nb Cons.prems ad s
        have "fpall_loop api gr delta ms (db1, seen @ [m'], t) = (db', out, t')" by simp
        from Cons.IH [OF this] nb mb Inl ad s show ?thesis by simp
      next
        case (Inr existed)
        let ?a = "if existed then failed_syncs t else failed_syncs t + 1"
        from nb Cons.prems ad s Inr
        have "fpall_loop api gr delta ms
                (db1, seen @ [m'], t\<lparr>failed_syncs := ?a, updated := updated t + 1\<rparr>)
              = (db', out, t')" by simp
        from Cons.IH [OF this]
        have ih: "fpall_loop api gr delta (filter (\<lambda>m. \<not> is_bot m) ms)
                (db1, filter (\<lambda>m. \<not> is_bot m) (seen @ [m']),
                 (t\<lparr>skipped_bots := k\<rparr>)\<lparr>failed_syncs := ?a, updated := updated t + 1\<rparr>)
              = (db', filter (\<lambda>m. \<not> is_bot m) out, t'\<lparr>skipped_bots := k\<rparr>)"
          unfolding tally_skip_swap .
        have "fpall_loop api gr delta (filter (\<lambda>m. \<not> is_bot m) (m # ms))
                (db, filter (\<lambda>m. \<not> is_bot m) seen, t\<lparr>skipped_bots := k\<rparr>)
              = fpall_loop api gr delta (filter (\<lambda>m. \<not> is_bot m) ms)
                (db1, filter (\<lambda>m. \<not> is_bot m) seen @ [m'],
                 (t\<lparr>skipped_bots := k\<rparr>)\<lparr>failed_syncs := ?a, updated := updated t + 1\<rparr>)"
          using nb ad s Inr by simp
        with ih mb show ?thesis by simp
      qed
    qed
  qed
qed

text \<open>
  C10. In \<open>fpall\<close> every member flagged as a bot is passed over: it leaves the loop
  exactly as it entered (no role of it is touched), only scores of non-bot members' ids
  can change, so with distinct member ids every bot's stored score is what it was; the
  number of updated members is at most the number of non-bot members, the bots being
  counted as skipped instead; and the database, the other members and the counters of
  updates and failed syncs are those of the same run on the member list without the bots.
\<close>

theorem fpall_skips_bots:
  assumes "fpall api gr delta ms db = (db', out, t)"
  shows "list_all2 (\<lambda>m m'. is_bot m \<longrightarrow> m' = m) ms out
       \<and> (\<forall>uid. (\<forall>m\<in>set ms. \<not> is_bot m \<longrightarrow> member_id m \<noteq> uid) \<longrightarrow> user_fp db' uid = user_fp db uid)
       \<and> (distinct (map member_id ms) \<longrightarrow>
            (\<forall>m\<in>set ms. is_bot m \<longrightarrow> get_fp db' (member_id m) = get_fp db (member_id m)))
       \<and> updated t \<le> length (filter (\<lambda>m. \<not> is_bot m) ms)
       \<and> skipped_bots t = length (filter is_bot ms)
       \<and> fpall api gr delta (filter (\<lambda>m. \<not> is_bot m) ms) db
           = (db', filter (\<lambda>m. \<not> is_bot m) out, t\<lparr>skipped_bots := 0\<rparr>)"
proof -
  let ?t0 = "\<lparr>updated = 0, skipped_bots = 0, failed_syncs = 0\<rparr>"
  from assms have run: "fpall_loop api gr delta ms (db, [], ?t0) = (db', out, t)"
    by (simp add: fpall_def)
  from fpall_loop_members [OF run]
  have la: "list_all2 (\<lambda>m m'. is_bot m \<longrightarrow> m' = m) ms out" by simp
  have fr: "\<forall>uid. (\<forall>m\<in>set ms. \<not> is_bot m \<longrightarrow> member_id m \<noteq> uid) \<longrightarrow> user_fp db' uid = user_fp db uid"
    using fpall_loop_frame [OF run] by blast
  from fpall_loop_counts [OF run]
  have up: "updated t \<le> length (filter (\<lambda>m. \<not> is_bot m) ms)"
    and sk: "skipped_bots t = length (filter is_bot ms)" by simp_all
  have score: "get_fp db' (member_id m) = get_fp db (member_id m)"
    if d: "distinct (map member_id ms)" and m: "m \<in> set ms" "is_bot m" for m
  proof -
    have "\<forall>x\<in>set ms. \<not> is_bot x \<longrightarrow> member_id x \<noteq> member_id m"
    proof (intro ballI impI notI)
      fix x assume x: "x \<in> set ms" "\<not> is_bot x" "member_id x = member_id m"
      with d m(1) have "x = m" by (auto simp: distinct_map dest: inj_onD)
      with x(2) m(2) show False by simp
    qed
    with fr have "user_fp db' (member_id m) = user_fp db (member_id m)" by blast
    then show ?thesis by (simp add: get_fp_def)
  qed
  have wb: "fpall api gr delta (filter (\<lambda>m. \<not> is_bot m) ms) db
              = (db', filter (\<lambda>m. \<not> is_bot m) out, t\<lparr>skipped_bots := 0\<rparr>)"
    using fpall_loop_without_bots [OF run, of 0] by (simp add: fpall_def)
  from score have sc: "distinct (map member_id ms) \<longrightarrow>
            (\<forall>m\<in>set ms. is_bot m \<longrightarrow> get_fp db' (member_id m) = get_fp db (member_id m))"
    by blast
  from la fr sc up sk wb show ?thesis by (intro conjI)
qed


theorem fpall_skips_bots_witness:
  "fpall api_allow [] 5 [bot_member, plain_member 2] scored_db
     = (scored_db\<lparr>user_fp := (user_fp scored_db)(2 \<mapsto> 5)\<rparr>, [bot_member, plain_member 2],
        \<lparr>updated = 1, skipped_bots = 1, failed_syncs = 1\<rparr>)
   \<and> get_fp (scored_db\<lparr>user_fp := (user_fp scored_db)(2 \<mapsto> 5)\<rparr>) (member_id bot_member)
       = get_fp scored_db (member_id bot_member)"
proof -
  have s: "sync_member_fp_role api_allow [] (plain_member 2) 5 = (plain_member 2, Inr False)"
    by (simp add: sync_member_fp_role_def plain_member_def)
  have a: "apply_delta scored_db 2 5 = Inr (scored_db\<lparr>user_fp := (user_fp scored_db)(2 \<mapsto> 5)\<rparr>, 5)"
    by (simp add: apply_delta_def set_fp_def get_fp_def in_int64_def scored_db_def)
  have b: "is_bot bot_member" "\<not> is_bot (plain_member 2)" "member_id (plain_member 2) = 2"
    by (simp_all add: bot_member_def plain_member_def)
  have ev: "fpall api_allow [] 5 [bot_member, plain_member 2] scored_db
     = (scored_db\<lparr>user_fp := (user_fp scored_db)(2 \<mapsto> 5)\<rparr>, [bot_member, plain_member 2],
        \<lparr>updated = 1, skipped_bots = 1, failed_syncs = 1\<rparr>)"
    by (simp add: fpall_def a b s)
  have d: "distinct (map member_id [bot_member, plain_member 2])"
    "bot_member \<in> set [bot_member, plain_member 2]"
    by (simp_all add: bot_member_def plain_member_def)
  from fpall_skips_bots [OF ev] d b(1)
  have "get_fp (scored_db\<lparr>user_fp := (user_fp scored_db)(2 \<mapsto> 5)\<rparr>) (member_id bot_member)
          = get_fp scored_db (member_id bot_member)"
    by blast
  with ev show ?thesis by simp
qed

end
